theory Spec2Isabelle
  imports Complex_Main "HOL-Library.Char_ord" "HOL-Library.List_Lexorder" "HOL-Library.AList"
begin

section \<open>Python values and exceptions\<close>

text \<open>
  The analysis code of popkat is Python on top of numpy and pandas. An exception that a
  function of the code (or of a library it calls) raises is a value \<open>Inl e\<close> of the
  result; a returned value is \<open>Inr v\<close>.
\<close>

datatype error =
  TypeError | ValueError | IndexError | KeyError | LinAlgError | AttributeError | SyntaxError

definition bind_err :: "error + 'a \<Rightarrow> ('a \<Rightarrow> error + 'b) \<Rightarrow> error + 'b" where
  "bind_err r f = (case r of Inl e \<Rightarrow> Inl e | Inr v \<Rightarrow> f v)"

fun sequence_sum :: "(error + 'a) list \<Rightarrow> error + 'a list" where
  "sequence_sum [] = Inr []"
| "sequence_sum (Inl e # rs) = Inl e"
| "sequence_sum (Inr v # rs) =
     (case sequence_sum rs of Inl e \<Rightarrow> Inl e | Inr vs \<Rightarrow> Inr (v # vs))"

section \<open>Sensitivity analysis: the tables of indices (analyze/sensitivity.py)\<close>

text \<open>
  \<open>itertools.combinations(range(nparam), 2)\<close>: the pairs of positions of
  \<open>range(nparam)\<close>, in lexicographic order of the positions.
\<close>

definition combinations2 :: "nat \<Rightarrow> (nat \<times> nat) list" where
  "combinations2 nparam =
     concat (map (\<lambda>i. map (\<lambda>j. (i, j)) [Suc i ..< nparam]) [0 ..< nparam])"

text \<open>Ascending order of index pairs \<open>(i, j)\<close>.\<close>

definition pair_less :: "nat \<times> nat \<Rightarrow> nat \<times> nat \<Rightarrow> bool" where
  "pair_less p q = (fst p < fst q \<or> (fst p = fst q \<and> snd p < snd q))"

text \<open>
  What the analyzer of SALib returns for one response vector: the first-order and total
  indices, one per model parameter, and the matrix of second-order indices.
\<close>

record sens_indices =
  S1 :: "real list"
  ST :: "real list"
  S2 :: "real list list"

text \<open>A row of the table of main effects and a row of the table of interactions.\<close>

record main_record =
  m_value :: real
  m_sens_level :: string
  m_pk_param :: string
  m_model_param :: string

record interact_record =
  i_value :: real
  i_sens_level :: string
  i_pk_param :: string
  i_model_param_1 :: string
  i_model_param_2 :: string

text \<open>\<open>interactions[i, j]\<close> on a two-dimensional numpy array.\<close>

definition matrix_get :: "real list list \<Rightarrow> nat \<Rightarrow> nat \<Rightarrow> error + real" where
  "matrix_get m i j =
     (if i < length m \<and> j < length (m ! i) then Inr (m ! i ! j) else Inl IndexError)"

text \<open>
  The rows of main and total effects of one PK parameter: for each of \<open>S1\<close>, \<open>ST\<close>
  the column \<open>value\<close> is set to the indices and the column \<open>model_param\<close> to the
  parameter names; pandas refuses a column whose length differs from the frame's.
\<close>

definition main_rows :: "string \<Rightarrow> string list \<Rightarrow> string \<Rightarrow> real list \<Rightarrow> error + main_record list" where
  "main_rows cname mparams si vals =
     (if length vals \<noteq> length mparams then Inl ValueError
      else Inr (map (\<lambda>(v, p). \<lparr>m_value = v, m_sens_level = si, m_pk_param = cname,
                               m_model_param = p\<rparr>) (zip vals mparams)))"

text \<open>
  The interaction rows of one PK parameter (the second half of the loop body of
  \<open>calc_sensitivity\<close>). \<open>n1, n2 = list(zip(*names))\<close> unpacks the transposed list of
  name pairs into two tuples; the transposition of an empty list is empty, and the
  unpacking raises \<open>ValueError\<close>.
\<close>

definition interact_rows :: "string \<Rightarrow> string list \<Rightarrow> real list list \<Rightarrow> error + interact_record list" where
  "interact_rows cname mparams interactions =
     (let num_mparams = length mparams;
          names = map (\<lambda>(i, j). (mparams ! i, mparams ! j)) (combinations2 num_mparams)
      in case sequence_sum (map (\<lambda>(i, j). matrix_get interactions i j) (combinations2 num_mparams)) of
           Inl e \<Rightarrow> Inl e
         | Inr vals \<Rightarrow>
             if names = [] then Inl ValueError
             else Inr (map (\<lambda>(v, (n1, n2)). \<lparr>i_value = v, i_sens_level = ''S2'',
                                i_pk_param = cname, i_model_param_1 = n1,
                                i_model_param_2 = n2\<rparr>) (zip vals names)))"

text \<open>
  The loop of \<open>calc_sensitivity\<close> over the columns of the PK parameters. The analyzer is
  the one of SALib selected at construction; it is a parameter here. The state of the
  loop is the pair of tables built so far.
\<close>

fun calc_sensitivity_loop ::
  "(real list \<Rightarrow> error + sens_indices) \<Rightarrow> string list \<Rightarrow> (string \<times> real list) list \<Rightarrow>
   main_record list \<times> interact_record list \<Rightarrow> error + main_record list \<times> interact_record list" where
  "calc_sensitivity_loop analyze mparams [] acc = Inr acc"
| "calc_sensitivity_loop analyze mparams ((cname, Y) # cols) (sa_main, sa_interact) =
     (case analyze Y of Inl e \<Rightarrow> Inl e | Inr Si \<Rightarrow>
      case main_rows cname mparams ''S1'' (S1 Si) of Inl e \<Rightarrow> Inl e | Inr r1 \<Rightarrow>
      case main_rows cname mparams ''ST'' (ST Si) of Inl e \<Rightarrow> Inl e | Inr r2 \<Rightarrow>
      case interact_rows cname mparams (S2 Si) of Inl e \<Rightarrow> Inl e | Inr r3 \<Rightarrow>
        calc_sensitivity_loop analyze mparams cols (sa_main @ r1 @ r2, sa_interact @ r3))"

text \<open>
  The objects that are handed to the constructor of the analyzer: a path, a string, a
  dict (its keys), \<open>None\<close>, or the shared \<open>SimInfo\<close> object with its attributes \<open>sim_id\<close>
  and \<open>sim_specs\<close>.
\<close>

datatype pyobj =
  PathObj string | StrObj string | DictObj "string list" | NoneObj | SimInfoObj string pyobj

text \<open>
  \<open>to_list\<close> of gen_utils: a path becomes a string, a string is wrapped in a list,
  anything else goes through \<open>list(val)\<close> (the keys, for a dict), and what cannot be
  iterated raises \<open>ValueError\<close>.
\<close>

fun to_list :: "pyobj \<Rightarrow> error + pyobj list" where
  "to_list (PathObj p) = Inr [StrObj p]"
| "to_list (StrObj s) = Inr [StrObj s]"
| "to_list (DictObj ks) = Inr (map StrObj ks)"
| "to_list NoneObj = Inl ValueError"
| "to_list (SimInfoObj sid specs) = Inl ValueError"

text \<open>
  \<open>MCAnalyzer.__init__(self, SimInfo, mc_outfiles)\<close>, which is also \<open>SetPtsAnalyzer\<close>:
  the output files are made a list, then the attributes \<open>sim_id\<close> and \<open>sim_specs\<close> of
  the first argument are read, which raises \<open>AttributeError\<close> for an object without them.
  The rest of the constructor reads the output files; it is the parameter
  \<open>read_outfiles\<close>, and its result stands for the numeric columns of \<open>_pk_params_raw\<close>.
\<close>

fun mc_analyzer_init ::
  "(pyobj list \<Rightarrow> pyobj \<Rightarrow> error + (string \<times> real list) list) \<Rightarrow> pyobj \<Rightarrow> pyobj \<Rightarrow>
   error + (string \<times> real list) list" where
  "mc_analyzer_init read_outfiles SimInfo mc_outfiles =
     bind_err (to_list mc_outfiles) (\<lambda>files.
       case SimInfo of
         SimInfoObj sim_id sim_specs \<Rightarrow> read_outfiles files sim_specs
       | _ \<Rightarrow> Inl AttributeError)"

text \<open>
  \<open>calc_sensitivity(self, setpts_outfile)\<close>. Its first statement is
  \<open>SetPtsAnalyzer(setpts_outfile, sim_specs)\<close>: the output file is passed where the
  constructor expects \<open>SimInfo\<close>, and the simulation specifications where it expects the
  output files. The loop runs on the PK parameters of the analyzer.
\<close>

definition calc_sensitivity ::
  "(real list \<Rightarrow> error + sens_indices) \<Rightarrow>
   (pyobj list \<Rightarrow> pyobj \<Rightarrow> error + (string \<times> real list) list) \<Rightarrow>
   string list \<Rightarrow> pyobj \<Rightarrow> pyobj \<Rightarrow> error + main_record list \<times> interact_record list" where
  "calc_sensitivity analyze read_outfiles mparams setpts_outfile sim_specs =
     bind_err (mc_analyzer_init read_outfiles setpts_outfile sim_specs) (\<lambda>pk_params.
       calc_sensitivity_loop analyze mparams pk_params ([], []))"

section \<open>Sensitivity analysis: the problem specification (analyze/sensitivity.py)\<close>

text \<open>
  The values a Python expression can evaluate to, as far as the problem specification
  needs them.
\<close>

datatype pyval =
  PInt int | PFloat real | PStr string | PList "pyval list" | PDict "(pyval \<times> pyval) list"
  | PNone












section \<open>Identifier map (analyze/popkatdata.py, utils/gen_utils.py)\<close>

text \<open>
  A Python \<open>dict\<close> is an association list with distinct keys in insertion order:
  storing under a key that is present replaces the value in place, storing under a new
  key appends. Reading a missing key raises \<open>KeyError\<close>.
\<close>

type_synonym ('k, 'v) dict = "('k \<times> 'v) list"

definition dict_get :: "('k, 'v) dict \<Rightarrow> 'k \<Rightarrow> error + 'v" where
  "dict_get d k = (case map_of d k of None \<Rightarrow> Inl KeyError | Some v \<Rightarrow> Inr v)"

definition dict_set :: "('k, 'v) dict \<Rightarrow> 'k \<Rightarrow> 'v \<Rightarrow> ('k, 'v) dict" where
  "dict_set d k v = AList.update k v d"

text \<open>\<open>dict(pairs)\<close> and the comprehension \<open>{k: v for ...}\<close>: the pairs stored in order.\<close>

definition dict_of_pairs :: "('k \<times> 'v) list \<Rightarrow> ('k, 'v) dict" where
  "dict_of_pairs ps = fold (\<lambda>(k, v) d. dict_set d k v) ps []"

text \<open>\<open>str(i)\<close> of a non-negative integer: its decimal digits, most significant first.\<close>

definition digit_char :: "nat \<Rightarrow> char" where
  "digit_char d = char_of (48 + d)"

function str_nat :: "nat \<Rightarrow> string" where
  "str_nat n = (if n < 10 then [digit_char n] else str_nat (n div 10) @ [digit_char (n mod 10)])"
  by pat_completeness auto
termination
  by (relation "measure id") auto

declare str_nat.simps [simp del]

text \<open>
  \<open>s.zfill(width)\<close>: zeros are inserted on the left up to the width, after a leading sign
  if there is one; a string that is long enough is returned unchanged.
\<close>

definition zfill :: "nat \<Rightarrow> string \<Rightarrow> string" where
  "zfill width s =
     (if width \<le> length s then s
      else case s of
             c # r \<Rightarrow> if c = CHR ''+'' \<or> c = CHR ''-''
                      then c # replicate (width - length s) CHR ''0'' @ r
                      else replicate (width - length s) CHR ''0'' @ s
           | [] \<Rightarrow> replicate width CHR ''0'')"

text \<open>\<open>s.split(sep)\<close> for a separator of one character.\<close>

fun split_on :: "char \<Rightarrow> string \<Rightarrow> string list" where
  "split_on c [] = [[]]"
| "split_on c (x # xs) =
     (if x = c then [] # split_on c xs
      else case split_on c xs of p # ps \<Rightarrow> (x # p) # ps | [] \<Rightarrow> [[x]])"

definition POPULATION_KEYWORD :: string where
  "POPULATION_KEYWORD = ''pop''"

text \<open>
  \<open>update_id\<close> of gen_utils: a level without a dot is the population; otherwise the part
  after the first dot, zero-filled to width 2, prefixed with \<open>s\<close>. (With a dot in the
  string the split has at least two parts, so the index 1 exists.)
\<close>

definition update_id :: "string \<Rightarrow> string" where
  "update_id hvar =
     (if CHR ''.'' \<notin> set hvar then POPULATION_KEYWORD
      else CHR ''s'' # zfill 2 (split_on CHR ''.'' hvar ! 1))"

text \<open>
  The object \<open>PoPKATData\<close>: the PK data of the save file (a dict from subject id to that
  subject's experiments), the map from run identifier to subject id and its reverse.
  The field \<open>sim_params\<close> is stored and never read by the methods below.
\<close>

record 'a popkat_data =
  pkdata :: "(string, 'a) dict"
  id_map :: "(string, string) dict"
  rev_id_map :: "(string, string) dict"

definition create_id_mapping :: "(string, 'a) dict \<Rightarrow> bool \<Rightarrow> (string, string) dict" where
  "create_id_mapping pkd add_pop =
     (let data_ids = sort (map fst pkd);
          sim_rnum = map (\<lambda>i. update_id (CHR ''.'' # str_nat i)) [1 ..< Suc (length data_ids)];
          id_map = dict_of_pairs (zip sim_rnum data_ids)
      in if add_pop then dict_set id_map POPULATION_KEYWORD POPULATION_KEYWORD else id_map)"

definition popkat_data_init :: "(string, 'a) dict \<Rightarrow> 'a popkat_data" where
  "popkat_data_init pkd =
     (let m = create_id_mapping pkd True
      in \<lparr>pkdata = pkd, id_map = m, rev_id_map = dict_of_pairs (map (\<lambda>(k, v). (v, k)) m)\<rparr>)"

text \<open>The two lookups; \<open>if self.pkdata\<close> is false for an empty dict.\<close>

definition sim_rnum_to_data_id :: "'a popkat_data \<Rightarrow> string \<Rightarrow> error + string" where
  "sim_rnum_to_data_id self sim_rnum =
     (if pkdata self \<noteq> [] then dict_get (id_map self) sim_rnum else Inr sim_rnum)"

definition data_id_to_sim_rnum :: "'a popkat_data \<Rightarrow> string \<Rightarrow> error + string" where
  "data_id_to_sim_rnum self data_id =
     (if pkdata self \<noteq> [] then dict_get (rev_id_map self) data_id else Inr data_id)"


section \<open>Floating-point values\<close>

text \<open>
  The arrays of the analysis hold IEEE doubles. They are modelled by the real numbers:
  rounding, overflow and signed zeros are not represented. A numpy division by zero
  does not raise; it gives an infinity or a NaN (with a warning). \<open>Special\<close> stands for
  such a value and for every value computed from one; real arithmetic says nothing
  more about it.
\<close>

datatype fval = Fin real | Special

fun fadd :: "fval \<Rightarrow> fval \<Rightarrow> fval" where
  "fadd (Fin a) (Fin b) = Fin (a + b)"
| "fadd _ _ = Special"

fun fdiv :: "fval \<Rightarrow> fval \<Rightarrow> fval" where
  "fdiv (Fin a) (Fin b) = (if b = 0 then Special else Fin (a / b))"
| "fdiv _ _ = Special"

section \<open>Pharmacokinetic calculations (analyze/pkcalcs.py)\<close>

definition DEF_NINTERP :: int where
  "DEF_NINTERP = 3"

text \<open>
  The slice \<open>xs[-n:]\<close>: the last \<open>n\<close> elements for a positive \<open>n\<close> (all of them when
  there are fewer), the whole list for \<open>n = 0\<close> (the slice \<open>xs[0:]\<close>), and the list
  without its first \<open>-n\<close> elements for a negative \<open>n\<close>.
\<close>

definition tail_slice :: "'a list \<Rightarrow> int \<Rightarrow> 'a list" where
  "tail_slice xs n = (if 0 < n then drop (length xs - nat n) xs else drop (nat (- n)) xs)"

text \<open>
  \<open>np.trapz(y, x)\<close> for arrays of equal length: the sum of the trapezoids
  \<open>(x[i+1] - x[i]) * (y[i+1] + y[i]) / 2\<close>.
\<close>

fun trapz :: "real list \<Rightarrow> real list \<Rightarrow> real" where
  "trapz (y0 # y1 # ys) (x0 # x1 # xs) =
     (x1 - x0) * (y1 + y0) / 2 + trapz (y1 # ys) (x1 # xs)"
| "trapz _ _ = 0"

text \<open>
  The line of least squares through the points \<open>(xs ! i, ys ! i)\<close>, in closed form; it is
  unique when two of the \<open>xs\<close> differ.
\<close>

definition lsq_slope :: "real list \<Rightarrow> real list \<Rightarrow> real" where
  "lsq_slope xs ys =
     (let n = real (length xs); sx = sum_list xs; sy = sum_list ys;
          sxx = sum_list (map (\<lambda>x. x * x) xs);
          sxy = sum_list (map (\<lambda>(x, y). x * y) (zip xs ys))
      in (n * sxy - sx * sy) / (n * sxx - sx * sx))"

definition lsq_intercept :: "real list \<Rightarrow> real list \<Rightarrow> real" where
  "lsq_intercept xs ys =
     (sum_list ys - lsq_slope xs ys * sum_list xs) / real (length xs)"

text \<open>
  The sum of the squared residuals of the line \<open>a * x + b\<close> at the points
  \<open>(xs ! i, ys ! i)\<close>: what a least-squares fit minimises.
\<close>

definition sse :: "real list \<Rightarrow> real list \<Rightarrow> real \<Rightarrow> real \<Rightarrow> real" where
  "sse xs ys a b = sum_list (map (\<lambda>(x, y). (a * x + b - y)\<^sup>2) (zip xs ys))"

text \<open>
  \<open>np.polyfit(x, y, 1)\<close>, returning \<open>(slope, intercept)\<close>. numpy raises \<open>TypeError\<close> for
  an empty \<open>x\<close> and for arrays of different lengths. When all \<open>x\<close> are equal the system
  is rank-deficient: numpy warns and returns the solution of minimum norm of its
  column-scaled system, which is \<open>(m / (2 * x0), m / 2)\<close> for the mean \<open>m\<close> of \<open>y\<close> and the
  common value \<open>x0 \<noteq> 0\<close>; for \<open>x0 = 0\<close> the scaling divides zero by zero and the
  least-squares solver fails with \<open>LinAlgError\<close>.
\<close>

definition polyfit1 :: "real list \<Rightarrow> real list \<Rightarrow> error + real \<times> real" where
  "polyfit1 xs ys =
     (if xs = [] then Inl TypeError
      else if length xs \<noteq> length ys then Inl TypeError
      else if list_all (\<lambda>x. x = hd xs) xs
      then (if hd xs = 0 then Inl LinAlgError
            else let m = sum_list ys / real (length ys) in Inr (m / (2 * hd xs), m / 2))
      else Inr (lsq_slope xs ys, lsq_intercept xs ys))"

text \<open>
  The points kept by the mask \<open>inds = C > 0\<close>, as pairs of time and concentration
  (\<open>t[inds]\<close> and \<open>C[inds]\<close> side by side).
\<close>

definition positive_points :: "real list \<Rightarrow> real list \<Rightarrow> (real \<times> real) list" where
  "positive_points t C = filter (\<lambda>(ti, Ci). 0 < Ci) (zip t C)"

text \<open>
  \<open>calc_elim_rate_const\<close>. The mask \<open>C > 0\<close> has the length of \<open>C\<close>; indexing \<open>t\<close> with a
  mask of another length raises \<open>IndexError\<close>, except that numpy accepts an empty mask:
  for an empty \<open>C\<close> nothing is kept and the fit raises \<open>TypeError\<close>.
\<close>

definition calc_elim_rate_const :: "real list \<Rightarrow> real list \<Rightarrow> int \<Rightarrow> error + real" where
  "calc_elim_rate_const t C ninterp =
     (if length t \<noteq> length C then (if C = [] then Inl TypeError else Inl IndexError)
      else let t' = map fst (positive_points t C);
               lnC = map (\<lambda>(ti, Ci). ln Ci) (positive_points t C)
           in bind_err (polyfit1 (tail_slice t' ninterp) (tail_slice lnC ninterp))
                (\<lambda>(slope, intercept). Inr (- slope)))"

text \<open>
  \<open>calc_AUC\<close>; the flag \<open>inf\<close> of the source is \<open>inf'\<close> here. The rate constant is
  computed before the branch on the flag.
\<close>

definition calc_AUC :: "real list \<Rightarrow> real list \<Rightarrow> bool \<Rightarrow> int \<Rightarrow> error + fval" where
  "calc_AUC t C inf' ninterp =
     bind_err (calc_elim_rate_const t C ninterp) (\<lambda>elim_rate_const.
       let AUC_tinf = (if inf' then fdiv (Fin (last C)) (Fin elim_rate_const) else Fin 0)
       in Inr (fadd (Fin (trapz C t)) AUC_tinf))"

text \<open>
  \<open>calc_mean_residence_time\<close>. For arrays of equal length the product \<open>C * t\<close> is
  elementwise. For other lengths numpy broadcasts an array of length 1: the product or the
  trapezoid sum raises \<open>ValueError\<close> unless the shapes are compatible (\<open>C\<close> of length 1, or
  \<open>t\<close> of length 1 and \<open>C\<close> of length 0 or 2), and then \<open>calc_AUC\<close> raises the error of
  \<open>calc_elim_rate_const\<close>.
\<close>

definition calc_mean_residence_time :: "real list \<Rightarrow> real list \<Rightarrow> int \<Rightarrow> error + fval" where
  "calc_mean_residence_time t C ninterp =
     (if length t \<noteq> length C
      then (if length C = 1 \<or> (length t = 1 \<and> (length C = 0 \<or> length C = 2))
            then (if C = [] then Inl TypeError else Inl IndexError)
            else Inl ValueError)
      else let AUMC = trapz (map (\<lambda>(Ci, ti). Ci * ti) (zip C t)) t
           in bind_err (calc_AUC t C False ninterp) (\<lambda>AUC. Inr (fdiv (Fin AUMC) AUC)))"

text \<open>\<open>np.argmax\<close>: the first index of the maximum; \<open>ValueError\<close> on an empty array.\<close>

fun argmax_from :: "nat \<Rightarrow> real \<Rightarrow> nat \<Rightarrow> real list \<Rightarrow> nat" where
  "argmax_from best bv i [] = best"
| "argmax_from best bv i (x # xs) =
     (if bv < x then argmax_from i x (Suc i) xs else argmax_from best bv (Suc i) xs)"

definition argmax :: "real list \<Rightarrow> error + nat" where
  "argmax C = (case C of [] \<Rightarrow> Inl ValueError | x # xs \<Rightarrow> Inr (argmax_from 0 x 1 xs))"

definition array_get :: "'a list \<Rightarrow> nat \<Rightarrow> error + 'a" where
  "array_get xs i = (if i < length xs then Inr (xs ! i) else Inl IndexError)"

definition calc_tmax :: "real list \<Rightarrow> real list \<Rightarrow> error + real" where
  "calc_tmax t C = bind_err (argmax C) (\<lambda>imax. array_get t imax)"

definition calc_cmax :: "real list \<Rightarrow> real list \<Rightarrow> error + real" where
  "calc_cmax t C = bind_err (argmax C) (\<lambda>imax. array_get C imax)"

definition calc_elim_half_life :: "real list \<Rightarrow> real list \<Rightarrow> int \<Rightarrow> error + fval" where
  "calc_elim_half_life t C ninterp =
     bind_err (calc_elim_rate_const t C ninterp) (\<lambda>elim_rate_const.
       Inr (fdiv (Fin (ln 2)) (Fin elim_rate_const)))"

definition calc_clearance :: "real list \<Rightarrow> real list \<Rightarrow> real \<Rightarrow> int \<Rightarrow> error + fval" where
  "calc_clearance t C dose ninterp =
     bind_err (calc_AUC t C True ninterp) (\<lambda>AUC_inf. Inr (fdiv (Fin dose) AUC_inf))"

definition calc_volume_of_distribution :: "real list \<Rightarrow> real list \<Rightarrow> real \<Rightarrow> int \<Rightarrow> error + fval" where
  "calc_volume_of_distribution t C dose ninterp =
     bind_err (calc_elim_rate_const t C ninterp) (\<lambda>ke.
     bind_err (calc_clearance t C dose ninterp) (\<lambda>CL.
       Inr (fdiv CL (Fin ke))))"

text \<open>
  \<open>calc_all_pk\<close>. The dose is optional (\<open>None\<close> by default); \<open>if dose\<close> is false for
  \<open>None\<close> and for a dose of zero. The result is the dict \<open>pk\<close> in insertion order.
\<close>

definition calc_all_pk ::
  "real list \<Rightarrow> real list \<Rightarrow> real option \<Rightarrow> int \<Rightarrow> error + (string, fval) dict" where
  "calc_all_pk t C dose ninterp =
     bind_err (calc_AUC t C False ninterp) (\<lambda>auc.
     bind_err (calc_AUC t C True ninterp) (\<lambda>auc_inf.
     bind_err (calc_mean_residence_time t C ninterp) (\<lambda>mrt.
     bind_err (calc_tmax t C) (\<lambda>tmax.
     bind_err (calc_cmax t C) (\<lambda>cmax.
     bind_err (calc_elim_rate_const t C ninterp) (\<lambda>kelim.
     bind_err (calc_elim_half_life t C ninterp) (\<lambda>t_half.
       let pk = dict_set (dict_set (dict_set (dict_set (dict_set (dict_set (dict_set []
                  ''AUC'' auc) ''AUC_inf'' auc_inf) ''MRT'' mrt) ''tmax'' (Fin tmax))
                  ''Cmax'' (Fin cmax)) ''kelim'' (Fin kelim)) ''t_half'' t_half
       in case dose of
            None \<Rightarrow> Inr pk
          | Some d \<Rightarrow>
              if d = 0 then Inr pk
              else bind_err (calc_clearance t C d ninterp) (\<lambda>cl.
                   bind_err (calc_volume_of_distribution t C d ninterp) (\<lambda>vd.
                     Inr (dict_set (dict_set pk ''clearance'' cl)
                            ''volume_of_distribution'' vd))))))))))"

text \<open>The entries of the parameter set that do not depend on the dose.\<close>

definition base_keys :: "string list" where
  "base_keys = [''AUC'', ''AUC_inf'', ''MRT'', ''tmax'', ''Cmax'', ''kelim'', ''t_half'']"

section \<open>Residuals against observed data (analyze/montecarlo.py, analyze/forward.py)\<close>

text \<open>
  \<open>np.interp(x, xp, fp)\<close> with the default \<open>left\<close> and \<open>right\<close>. numpy looks for the index
  \<open>j\<close> with \<open>xp[j] \<le> x < xp[j+1]\<close> by bisection and does not check that \<open>xp\<close> is
  increasing; the scan below finds the same index when it is. Below \<open>xp[0]\<close> the result is
  \<open>fp[0]\<close>, above the last \<open>xp\<close> it is the last \<open>fp\<close>, at \<open>x = xp[j]\<close> it is \<open>fp[j]\<close>, and
  otherwise it is on the line through the points \<open>j\<close> and \<open>j + 1\<close>.
\<close>

fun interp_scan :: "real \<Rightarrow> (real \<times> real) list \<Rightarrow> real" where
  "interp_scan x [] = 0"
| "interp_scan x [(x0, y0)] = y0"
| "interp_scan x ((x0, y0) # (x1, y1) # ps) =
     (if x < x1
      then (if x0 = x then y0 else (y1 - y0) / (x1 - x0) * (x - x0) + y0)
      else interp_scan x ((x1, y1) # ps))"

definition interp_at :: "real \<Rightarrow> real list \<Rightarrow> real list \<Rightarrow> real" where
  "interp_at x xp fp =
     (if last xp < x then last fp
      else if x < hd xp then hd fp
      else interp_scan x (zip xp fp))"

definition np_interp :: "real list \<Rightarrow> real list \<Rightarrow> real list \<Rightarrow> error + real list" where
  "np_interp xs xp fp =
     (if xp = [] then Inl ValueError
      else if length fp \<noteq> length xp then Inl ValueError
      else Inr (map (\<lambda>x. interp_at x xp fp) xs))"

text \<open>\<open>Series.unique()\<close>: the distinct values in order of first appearance.\<close>

definition unique :: "'a list \<Rightarrow> 'a list" where
  "unique xs = rev (remdups (rev xs))"

text \<open>
  The rows of the tidy frames of simulated and observed values (the columns the residuals
  read), and the rows of the frame of residuals.
\<close>

record series_row =
  ident :: string
  time :: real
  dep_var :: real

record diff_row =
  d_time :: real
  dep_var_diff :: fval
  d_ident :: string
  d_measure :: string

text \<open>\<open>(vals_dat - vals_interp) / vals_dat\<close>, elementwise on doubles.\<close>

definition rel_diff :: "real \<Rightarrow> real \<Rightarrow> fval" where
  "rel_diff val_dat val_interp = fdiv (Fin (val_dat - val_interp)) (Fin val_dat)"

text \<open>The body of the loop of \<open>MCAnalyzer._calc_df_diff\<close> for one identifier.\<close>

definition diff_for_ident ::
  "series_row list \<Rightarrow> series_row list \<Rightarrow> string \<Rightarrow> string \<Rightarrow> error + diff_row list" where
  "diff_for_ident sim_df data_df ov idt =
     (let ddf = filter (\<lambda>r. ident r = idt) data_df;
          sdf = filter (\<lambda>r. ident r = idt) sim_df
      in bind_err (np_interp (map time ddf) (map time sdf) (map dep_var sdf)) (\<lambda>vals_interp.
           Inr (map (\<lambda>(d, vi). \<lparr>d_time = time d, dep_var_diff = rel_diff (dep_var d) vi,
                                 d_ident = idt, d_measure = ov\<rparr>) (zip ddf vals_interp))))"

fun calc_df_diff_loop ::
  "series_row list \<Rightarrow> series_row list \<Rightarrow> string \<Rightarrow> string list \<Rightarrow> diff_row list \<Rightarrow>
   error + diff_row list" where
  "calc_df_diff_loop sim_df data_df ov [] df_all = Inr df_all"
| "calc_df_diff_loop sim_df data_df ov (idt # idents) df_all =
     bind_err (diff_for_ident sim_df data_df ov idt) (\<lambda>df.
       calc_df_diff_loop sim_df data_df ov idents (df_all @ df))"

definition calc_df_diff :: "series_row list \<Rightarrow> series_row list \<Rightarrow> string \<Rightarrow> error + diff_row list" where
  "calc_df_diff sim_df data_df ov =
     calc_df_diff_loop sim_df data_df ov (unique (map ident sim_df)) []"

text \<open>
  \<open>FwdAnalyzer._calc_df_diff\<close>: the same loop over the identifiers of the simulation, but
  each pass reads the whole frames and its rows carry no identifier (the unset column is
  modelled by the empty string).
\<close>

definition fwd_diff_block :: "series_row list \<Rightarrow> series_row list \<Rightarrow> string \<Rightarrow> error + diff_row list" where
  "fwd_diff_block sim_df data_df ov =
     bind_err (np_interp (map time data_df) (map time sim_df) (map dep_var sim_df)) (\<lambda>vals_interp.
       Inr (map (\<lambda>(d, vi). \<lparr>d_time = time d, dep_var_diff = rel_diff (dep_var d) vi,
                             d_ident = [], d_measure = ov\<rparr>) (zip data_df vals_interp)))"

fun fwd_calc_df_diff_loop ::
  "series_row list \<Rightarrow> series_row list \<Rightarrow> string \<Rightarrow> string list \<Rightarrow> diff_row list \<Rightarrow>
   error + diff_row list" where
  "fwd_calc_df_diff_loop sim_df data_df ov [] df_all = Inr df_all"
| "fwd_calc_df_diff_loop sim_df data_df ov (idt # idents) df_all =
     bind_err (fwd_diff_block sim_df data_df ov) (\<lambda>df.
       fwd_calc_df_diff_loop sim_df data_df ov idents (df_all @ df))"

definition fwd_calc_df_diff :: "series_row list \<Rightarrow> series_row list \<Rightarrow> string \<Rightarrow> error + diff_row list" where
  "fwd_calc_df_diff sim_df data_df ov =
     fwd_calc_df_diff_loop sim_df data_df ov (unique (map ident sim_df)) []"

section \<open>Ensemble quantiles (analyze/montecarlo.py)\<close>

text \<open>
  A frame of an ensemble is the list of its rows (one row per draw, one value per time
  column); all rows have the length of the first. Its columns are read off the rows. A
  frame with columns and no row is not represented.
\<close>

definition columns :: "real list list \<Rightarrow> real list list" where
  "columns df =
     (case df of [] \<Rightarrow> [] | r # _ \<Rightarrow> map (\<lambda>j. map (\<lambda>row. row ! j) df) [0 ..< length r])"

text \<open>
  The quantile \<open>q\<close> of the values of one column, with the linear interpolation that is
  the default of pandas: between the order statistics next to the position
  \<open>q * (n - 1)\<close>. (A column of a frame with a row is not empty.)
\<close>

definition col_quantile :: "real \<Rightarrow> real list \<Rightarrow> real" where
  "col_quantile q col =
     (let v = sort col; n = length v; h = q * real (n - 1);
          lo = nat \<lfloor>h\<rfloor>; hi = min (lo + 1) (n - 1)
      in v ! lo + (h - real lo) * (v ! hi - v ! lo))"

text \<open>
  \<open>df.quantile(q=quants, axis=0)\<close>: pandas raises \<open>ValueError\<close> unless every \<open>q\<close> is in
  \<open>[0, 1]\<close>; the result has one row per requested quantile, labelled by it, in the
  order of the request.
\<close>

definition quantile_frame :: "real list list \<Rightarrow> real list \<Rightarrow> error + (real \<times> real list) list" where
  "quantile_frame df quants =
     (if \<not> list_all (\<lambda>q. 0 \<le> q \<and> q \<le> 1) quants then Inl ValueError
      else Inr (map (\<lambda>q. (q, map (col_quantile q) (columns df))) quants))"

text \<open>
  The lookup \<open>p_interval.ix[label, :]\<close> by the label of a row: the row as a vector when
  one row has the label, a frame of all the rows with the label when several have it,
  \<open>KeyError\<close> when none has it.
\<close>

datatype ix_result = Vec "real list" | Frame "real list list"

definition ix_row :: "(real \<times> real list) list \<Rightarrow> real \<Rightarrow> error + ix_result" where
  "ix_row p_interval label =
     (case filter (\<lambda>(l, r). l = label) p_interval of
        [] \<Rightarrow> Inl KeyError
      | [(l, r)] \<Rightarrow> Inr (Vec r)
      | rs \<Rightarrow> Inr (Frame (map snd rs)))"

definition calc_confint ::
  "real list list \<Rightarrow> real list \<Rightarrow> error + ix_result \<times> ix_result \<times> ix_result" where
  "calc_confint df quants =
     bind_err (quantile_frame df quants) (\<lambda>p_interval.
     bind_err (array_get quants 0) (\<lambda>q0.
     bind_err (ix_row p_interval q0) (\<lambda>lower.
     bind_err (array_get quants 1) (\<lambda>q1.
     bind_err (ix_row p_interval q1) (\<lambda>dep_var.
     bind_err (array_get quants 2) (\<lambda>q2.
     bind_err (ix_row p_interval q2) (\<lambda>upper.
       Inr (lower, dep_var, upper))))))))"

text \<open>
  The canonical text form of the run identifier of subject \<open>i\<close>, as the specification
  gives it: \<open>s\<close> followed by the index, zero-padded to width 2.
\<close>

definition run_identifier :: "nat \<Rightarrow> string" where
  "run_identifier i = CHR ''s'' # zfill 2 (str_nat i)"

section \<open>Properties of the interaction table\<close>

lemma set_combinations2:
  "set (combinations2 k) = {(i, j). i < j \<and> j < k}"
  by (fastforce simp: combinations2_def)

lemma length_combinations2_sum:
  "length (combinations2 k) = (\<Sum>i<k. k - Suc i)"
proof -
  have "length (combinations2 k) = sum_list (map (\<lambda>i. k - Suc i) [0..<k])"
    by (simp add: combinations2_def length_concat comp_def)
  also have "\<dots> = (\<Sum>i<k. k - Suc i)"
    by (simp add: interv_sum_list_conv_sum_set_nat atLeast0LessThan)
  finally show ?thesis .
qed

lemma sum_below_choose2: "(\<Sum>i<k. k - Suc i) = k choose 2"
proof (induction k)
  case 0
  show ?case by simp
next
  case (Suc k)
  have "(\<Sum>i<Suc k. Suc k - Suc i) = (\<Sum>i<Suc k. k - i)"
    by simp
  also have "\<dots> = (\<Sum>i<k. k - i)"
    by simp
  also have "\<dots> = (\<Sum>i<k. Suc (k - Suc i))"
    by (rule sum.cong) auto
  also have "\<dots> = (\<Sum>i<k. k - Suc i) + k"
    unfolding Suc_eq_plus1 sum.distrib by simp
  also have "\<dots> = (k choose 2) + k"
    by (simp add: Suc.IH)
  also have "\<dots> = Suc k choose 2"
    by (simp add: numeral_2_eq_2)
  finally show ?case .
qed

lemma length_combinations2: "length (combinations2 k) = k choose 2"
  by (simp add: length_combinations2_sum sum_below_choose2)

lemma sorted_wrt_concat_map:
  assumes "\<And>x. x \<in> set xs \<Longrightarrow> sorted_wrt R (f x)"
      and "sorted_wrt (\<lambda>x y. \<forall>a\<in>set (f x). \<forall>b\<in>set (f y). R a b) xs"
  shows "sorted_wrt R (concat (map f xs))"
  using assms by (induction xs) (auto simp: sorted_wrt_append)

lemma sorted_combinations2: "sorted_wrt pair_less (combinations2 k)"
  unfolding combinations2_def
proof (rule sorted_wrt_concat_map)
  fix i
  show "sorted_wrt pair_less (map (Pair i) [Suc i..<k])"
    by (simp add: sorted_wrt_map pair_less_def)
next
  have "sorted_wrt (<) [0..<k]"
    by simp
  then show "sorted_wrt (\<lambda>x y. \<forall>a\<in>set (map (Pair x) [Suc x..<k]).
                 \<forall>b\<in>set (map (Pair y) [Suc y..<k]). pair_less a b) [0..<k]"
    by (rule sorted_wrt_mono_rel[rotated]) (auto simp: pair_less_def)
qed

lemma sequence_sum_map_Inr:
  "(\<And>x. x \<in> set xs \<Longrightarrow> f x = Inr (g x)) \<Longrightarrow> sequence_sum (map f xs) = Inr (map g xs)"
  by (induction xs) auto

lemma combinations2_empty_iff: "combinations2 k = [] \<longleftrightarrow> k < 2"
proof -
  have "combinations2 k = [] \<longleftrightarrow> set (combinations2 k) = {}"
    by simp
  also have "\<dots> \<longleftrightarrow> k < 2"
    unfolding set_combinations2
  proof
    assume e: "{(i, j). i < j \<and> j < k} = {}"
    show "k < 2"
    proof (rule ccontr)
      assume "\<not> k < 2"
      then have "(0::nat, 1::nat) \<in> {(i, j). i < j \<and> j < k}"
        by simp
      with e show False
        by simp
    qed
  next
    assume "k < 2"
    then show "{(i, j). i < j \<and> j < k} = {}"
      by auto
  qed
  finally show ?thesis .
qed

text \<open>
  With at least two model parameters and a square matrix of second-order indices, the
  interaction rows of one PK parameter are the \<open>C(k, 2)\<close> pairs in the order of
  \<open>combinations2\<close>, each with its two parameter names and its index.
\<close>

lemma interact_rows_pairs:
  assumes k: "2 \<le> length mparams"
      and sq: "length interactions = length mparams"
              "\<And>row. row \<in> set interactions \<Longrightarrow> length row = length mparams"
  shows "interact_rows cname mparams interactions =
           Inr (map (\<lambda>(i, j). \<lparr>i_value = interactions ! i ! j, i_sens_level = ''S2'',
                      i_pk_param = cname, i_model_param_1 = mparams ! i,
                      i_model_param_2 = mparams ! j\<rparr>) (combinations2 (length mparams)))"
proof -
  let ?k = "length mparams"
  have get: "(case p of (i, j) \<Rightarrow> matrix_get interactions i j)
               = Inr (case p of (i, j) \<Rightarrow> interactions ! i ! j)"
    if "p \<in> set (combinations2 ?k)" for p
  proof -
    obtain i j where p: "p = (i, j)"
      by (cases p)
    from that p have ij: "i < j" "j < ?k"
      by (simp_all add: set_combinations2)
    then have "i < length interactions"
      using sq(1) by simp
    moreover from this have "length (interactions ! i) = ?k"
      using sq(2) by simp
    ultimately show ?thesis
      using ij p by (simp add: matrix_get_def)
  qed
  have vals: "sequence_sum (map (\<lambda>(i, j). matrix_get interactions i j) (combinations2 ?k))
               = Inr (map (\<lambda>(i, j). interactions ! i ! j) (combinations2 ?k))"
    by (rule sequence_sum_map_Inr) (rule get)
  have ne: "combinations2 ?k \<noteq> []"
    using k by (simp add: combinations2_empty_iff)
  show ?thesis
    unfolding interact_rows_def Let_def vals
    using ne by (simp add: zip_map_map zip_same_conv_map case_prod_unfold comp_def)
qed

lemma interact_rows_count:
  assumes "2 \<le> length mparams" "length interactions = length mparams"
          "\<And>row. row \<in> set interactions \<Longrightarrow> length row = length mparams"
          "interact_rows cname mparams interactions = Inr rows"
  shows "length rows = length mparams choose 2"
proof -
  have "rows = map (\<lambda>(i, j). \<lparr>i_value = interactions ! i ! j, i_sens_level = ''S2'',
                      i_pk_param = cname, i_model_param_1 = mparams ! i,
                      i_model_param_2 = mparams ! j\<rparr>) (combinations2 (length mparams))"
    using assms(4) by (simp add: interact_rows_pairs[OF assms(1-3)])
  then show ?thesis
    by (simp add: length_combinations2)
qed

lemma interact_rows_few_params:
  "length mparams < 2 \<Longrightarrow> interact_rows cname mparams interactions = Inl ValueError"
proof -
  assume "length mparams < 2"
  then have "combinations2 (length mparams) = []"
    by (simp add: combinations2_empty_iff)
  then show ?thesis
    by (simp add: interact_rows_def)
qed

text \<open>
  With one model parameter the loop raises \<open>ValueError\<close> at the unpacking of the name
  pairs.
\<close>

lemma calc_sensitivity_loop_one_parameter:
  "calc_sensitivity_loop (\<lambda>Y. Inr \<lparr>S1 = [1], ST = [1], S2 = [[0]]\<rparr>) [''ka'']
     [(''AUC'', [1, 2, 3, 4])] ([], []) = Inl ValueError"
  by (simp add: main_rows_def interact_rows_few_params)

text \<open>
  Claim C6. For a sensitivity problem with \<open>k\<close> model parameters the analysis is to emit
  exactly \<open>C(k, 2)\<close> interaction records per PK parameter, in ascending \<open>(i, j)\<close> order.
  \<open>calc_sensitivity\<close> emits no record: it constructs the analyzer of the output file
  with the arguments in the wrong places, and for the path of the output file, which has
  no attribute \<open>sim_id\<close>, the constructor raises \<open>AttributeError\<close> before the loop over the
  PK parameters starts, whatever the problem, the analyzer and the content of the file.
\<close>

theorem calc_sensitivity_raises_at_construction:
  "calc_sensitivity analyze read_outfiles mparams (PathObj setpts_outfile) (DictObj sim_specs)
     = Inl AttributeError"
  by (simp add: calc_sensitivity_def bind_err_def)

section \<open>Properties of the extraction of the problem\<close>






section \<open>Properties of the identifier map\<close>

lemma of_char_digit_char: "d < 10 \<Longrightarrow> (of_char (digit_char d) :: nat) = 48 + d"
  unfolding digit_char_def of_char_of by simp

lemma digit_char_inj: "a < 10 \<Longrightarrow> b < 10 \<Longrightarrow> digit_char a = digit_char b \<Longrightarrow> a = b"
proof -
  assume a: "a < 10" and b: "b < 10" and e: "digit_char a = digit_char b"
  have "(of_char (digit_char a) :: nat) = of_char (digit_char b)"
    by (simp only: e)
  then have "48 + a = 48 + b"
    by (simp only: of_char_digit_char[OF a] of_char_digit_char[OF b])
  then show "a = b"
    by (simp only: add_left_cancel)
qed

lemma digit_char_neq:
  assumes "d < 10" "(of_char c :: nat) < 48"
  shows "digit_char d \<noteq> c"
  using of_char_digit_char[OF assms(1)] assms(2) by auto

lemma digit_char_zero: "digit_char 0 = CHR ''0''"
  unfolding digit_char_def by code_simp

lemma digit_char_zero_iff: "d < 10 \<Longrightarrow> digit_char d = CHR ''0'' \<longleftrightarrow> d = 0"
  using digit_char_inj[of d 0] digit_char_zero by auto

lemma str_nat_no_dot: "CHR ''.'' \<notin> set (str_nat n)"
proof (induction n rule: str_nat.induct)
  case (1 n)
  have d: "digit_char k \<noteq> CHR ''.''" if "k < 10" for k
    using that by (rule digit_char_neq) simp
  show ?case
  proof (cases "n < 10")
    case True
    then show ?thesis using d[of n] by (simp add: str_nat.simps[of n])
  next
    case False
    then show ?thesis using 1 d[of "n mod 10"] by (simp add: str_nat.simps[of n])
  qed
qed

lemma str_nat_nonempty: "str_nat n \<noteq> []"
  by (subst str_nat.simps) simp

lemma hd_str_nat: "0 < n \<Longrightarrow> hd (str_nat n) \<noteq> CHR ''0''"
proof (induction n rule: str_nat.induct)
  case (1 n)
  show ?case
  proof (cases "n < 10")
    case True
    then show ?thesis using 1(2) by (simp add: str_nat.simps[of n] digit_char_zero_iff)
  next
    case False
    then have "0 < n div 10" by simp
    with 1(1) False have "hd (str_nat (n div 10)) \<noteq> CHR ''0''" by simp
    then show ?thesis using False by (simp add: str_nat.simps[of n] str_nat_nonempty)
  qed
qed

lemma length_str_nat: "length (str_nat n) = Suc 0 \<longleftrightarrow> n < 10"
  by (subst str_nat.simps) (simp add: str_nat_nonempty)

lemma str_nat_inj: "str_nat a = str_nat b \<Longrightarrow> a = b"
proof (induction a arbitrary: b rule: str_nat.induct)
  case (1 n)
  show ?case
  proof (cases "n < 10")
    case True
    then have "length (str_nat b) = Suc 0" using 1(2) length_str_nat[of n] by simp
    then have b: "b < 10" by (simp add: length_str_nat)
    from 1(2) True b have "digit_char n = digit_char b"
      by (simp add: str_nat.simps[of n] str_nat.simps[of b])
    then show ?thesis using True b digit_char_inj by blast
  next
    case False
    then have "length (str_nat b) \<noteq> Suc 0" using 1(2) length_str_nat[of n] by simp
    then have b: "\<not> b < 10" by (simp add: length_str_nat)
    from 1(2) False b have "str_nat (n div 10) = str_nat (b div 10)" "digit_char (n mod 10) = digit_char (b mod 10)"
      by (simp_all add: str_nat.simps[of n] str_nat.simps[of b])
    then have "n div 10 = b div 10" "n mod 10 = b mod 10"
      using 1(1)[OF False] digit_char_inj[of "n mod 10" "b mod 10"] by simp_all
    then show ?thesis by (metis div_mult_mod_eq)
  qed
qed

lemma zfill2_str_nat: "zfill 2 (str_nat n) = (if n < 10 then [CHR ''0'', digit_char n] else str_nat n)"
proof (cases "n < 10")
  case True
  have "digit_char n \<noteq> CHR ''+''" "digit_char n \<noteq> CHR ''-''"
    using True digit_char_neq[of n "CHR ''+''"] digit_char_neq[of n "CHR ''-''"] by simp_all
  then show ?thesis using True by (simp add: zfill_def str_nat.simps[of n])
next
  case False
  then have "length (str_nat n) \<noteq> Suc 0" by (simp add: length_str_nat)
  moreover have "length (str_nat n) \<noteq> 0" by (simp add: str_nat_nonempty)
  ultimately have "2 \<le> length (str_nat n)" by linarith
  then show ?thesis using False by (simp add: zfill_def)
qed

lemma zfill2_str_nat_inj: "zfill 2 (str_nat a) = zfill 2 (str_nat b) \<Longrightarrow> a = b"
proof -
  assume e: "zfill 2 (str_nat a) = zfill 2 (str_nat b)"
  have aux: False if "x < 10" "\<not> y < 10" "[CHR ''0'', digit_char x] = str_nat y" for x y
  proof -
    from that(2) have "0 < y" by simp
    then have "hd (str_nat y) \<noteq> CHR ''0''" by (rule hd_str_nat)
    with that(3) show False by (metis list.sel(1))
  qed
  show "a = b"
  proof (cases "a < 10"; cases "b < 10")
    assume "a < 10" "b < 10"
    with e show ?thesis by (simp add: zfill2_str_nat digit_char_inj)
  next
    assume "a < 10" "\<not> b < 10"
    with e aux[of a b] show ?thesis by (simp add: zfill2_str_nat)
  next
    assume "\<not> a < 10" "b < 10"
    with e aux[of b a] show ?thesis by (simp add: zfill2_str_nat)
  next
    assume "\<not> a < 10" "\<not> b < 10"
    with e show ?thesis by (simp add: zfill2_str_nat str_nat_inj)
  qed
qed

lemma run_identifier_inj: "run_identifier a = run_identifier b \<Longrightarrow> a = b"
  by (simp add: run_identifier_def zfill2_str_nat_inj)

text \<open>Below ten the index has one digit and is padded with one zero.\<close>

lemma run_identifier_padded:
  "run_identifier i =
     (if i < 10 then [CHR ''s'', CHR ''0'', digit_char i] else CHR ''s'' # str_nat i)"
  by (simp add: run_identifier_def zfill2_str_nat)

lemma split_on_no_sep: "c \<notin> set s \<Longrightarrow> split_on c s = [s]"
  by (induction s) auto

lemma update_id_dot: "update_id (CHR ''.'' # str_nat i) = run_identifier i"
  by (simp add: update_id_def run_identifier_def split_on_no_sep str_nat_no_dot)

lemma run_identifier_not_pop: "run_identifier i \<noteq> POPULATION_KEYWORD"
  by (simp add: run_identifier_def POPULATION_KEYWORD_def)

lemma update_fresh: "k \<notin> fst ` set d \<Longrightarrow> AList.update k v d = d @ [(k, v)]"
  by (induction d) auto

lemma dict_set_fresh: "k \<notin> fst ` set d \<Longrightarrow> dict_set d k v = d @ [(k, v)]"
  by (simp add: dict_set_def update_fresh)

lemma fold_dict_set_distinct:
  "distinct (map fst (acc @ ps)) \<Longrightarrow> fold (\<lambda>(k, v) d. dict_set d k v) ps acc = acc @ ps"
proof (induction ps arbitrary: acc)
  case Nil
  show ?case by simp
next
  case (Cons p ps)
  obtain k v where p: "p = (k, v)" by (cases p)
  from Cons.prems p have fresh: "k \<notin> fst ` set acc" by auto
  from Cons.prems p have "distinct (map fst ((acc @ [(k, v)]) @ ps))" by simp
  then have "fold (\<lambda>(k, v) d. dict_set d k v) ps (acc @ [(k, v)]) = (acc @ [(k, v)]) @ ps"
    by (rule Cons.IH)
  then show ?case using p fresh by (simp add: dict_set_fresh)
qed

lemma dict_of_pairs_distinct: "distinct (map fst ps) \<Longrightarrow> dict_of_pairs ps = ps"
  using fold_dict_set_distinct[of "[]" ps] by (simp add: dict_of_pairs_def)

lemma distinct_run_identifiers: "distinct (map run_identifier [1 ..< Suc n])"
  by (simp add: distinct_map inj_on_def run_identifier_inj del: upt_Suc)

lemma create_id_mapping_explicit:
  "create_id_mapping pkd True =
     zip (map run_identifier [1 ..< Suc (length pkd)]) (sort (map fst pkd))
       @ [(POPULATION_KEYWORD, POPULATION_KEYWORD)]"
proof -
  let ?ks = "map run_identifier [1 ..< Suc (length pkd)]"
  let ?vs = "sort (map fst pkd)"
  have len: "length ?ks = length ?vs" by (simp del: upt_Suc)
  have "distinct (map fst (zip ?ks ?vs))"
    using distinct_run_identifiers[of "length pkd"] len by (simp del: upt_Suc)
  then have d: "dict_of_pairs (zip ?ks ?vs) = zip ?ks ?vs"
    by (rule dict_of_pairs_distinct)
  have "POPULATION_KEYWORD \<notin> fst ` set (zip ?ks ?vs)"
  proof
    assume "POPULATION_KEYWORD \<in> fst ` set (zip ?ks ?vs)"
    then have "POPULATION_KEYWORD \<in> set ?ks" by (auto dest: set_zip_leftD)
    then obtain i where "run_identifier i = POPULATION_KEYWORD"
      unfolding set_map by (metis imageE)
    then show False by (simp add: run_identifier_not_pop)
  qed
  then have "dict_set (zip ?ks ?vs) POPULATION_KEYWORD POPULATION_KEYWORD
              = zip ?ks ?vs @ [(POPULATION_KEYWORD, POPULATION_KEYWORD)]"
    by (rule dict_set_fresh)
  with d show ?thesis
    unfolding create_id_mapping_def Let_def
    by (simp add: update_id_dot del: upt_Suc)
qed

lemma sort_distinct_set_eq:
  fixes xs ys :: "'a::linorder list"
  assumes "distinct xs" "distinct ys" "set xs = set ys"
  shows "sort xs = sort ys"
  using assms by (intro sorted_distinct_set_unique) simp_all

text \<open>
  Claim C2. For the distinct subject ids of a dataset, the identifier map pairs the run
  identifiers \<open>s01\<close>, \<open>s02\<close>, ... (index zero-padded to width 2) with the subject
  ids sorted ascending in lexicographic order, and ends with the sentinel \<open>pop\<close> mapped to
  \<open>pop\<close>. The map is the same for every dataset with the same set of subject ids, in
  whatever order they are stored.
\<close>

theorem create_id_mapping_sorted_deterministic:
  assumes "distinct (map fst pkd)"
  shows "create_id_mapping pkd True =
           zip (map run_identifier [1 ..< Suc (length pkd)]) (sort (map fst pkd))
             @ [(''pop'', ''pop'')]
         \<and> (\<forall>pkd' :: (string, 'a) dict.
               distinct (map fst pkd') \<and> set (map fst pkd') = set (map fst pkd)
                 \<longrightarrow> create_id_mapping pkd' True = create_id_mapping pkd True)"
proof (intro conjI allI impI)
  show "create_id_mapping pkd True =
           zip (map run_identifier [1 ..< Suc (length pkd)]) (sort (map fst pkd))
             @ [(''pop'', ''pop'')]"
    by (simp only: create_id_mapping_explicit POPULATION_KEYWORD_def)
next
  fix pkd' :: "(string, 'a) dict"
  assume a: "distinct (map fst pkd') \<and> set (map fst pkd') = set (map fst pkd)"
  then have s: "sort (map fst pkd') = sort (map fst pkd)"
    using assms by (intro sort_distinct_set_eq) simp_all
  then have "length (sort (map fst pkd')) = length (sort (map fst pkd))"
    by (simp only:)
  then have "length pkd' = length pkd" by simp
  with s show "create_id_mapping pkd' True = create_id_mapping pkd True"
    by (simp only: create_id_mapping_explicit)
qed


theorem create_id_mapping_sorted_deterministic_witness:
  "distinct (map fst [(''jh'', ()), (''ab'', ()), (''zz'', ())])
   \<and> create_id_mapping [(''jh'', ()), (''ab'', ()), (''zz'', ())] True
       = [(''s01'', ''ab''), (''s02'', ''jh''), (''s03'', ''zz''), (''pop'', ''pop'')]
   \<and> create_id_mapping [(''zz'', ()), (''jh'', ()), (''ab'', ())] True
       = create_id_mapping [(''jh'', ()), (''ab'', ()), (''zz'', ())] True"
proof -
  let ?pkd = "[(''jh'', ()), (''ab'', ()), (''zz'', ())]"
  have h: "distinct (map fst ?pkd)"
    by simp
  have e: "zip (map run_identifier [1 ..< Suc (length ?pkd)]) (sort (map fst ?pkd))
             @ [(''pop'', ''pop'')]
           = [(''s01'', ''ab''), (''s02'', ''jh''), (''s03'', ''zz''), (''pop'', ''pop'')]"
    by code_simp
  have h': "distinct (map fst [(''zz'', ()), (''jh'', ()), (''ab'', ())])
            \<and> set (map fst [(''zz'', ()), (''jh'', ()), (''ab'', ())]) = set (map fst ?pkd)"
    by auto
  from create_id_mapping_sorted_deterministic[OF h] e h' show ?thesis
    by (metis (no_types, lifting) h)
qed

lemma dict_get_KeyError: "dict_get d k = Inl KeyError \<longleftrightarrow> k \<notin> fst ` set d"
  by (auto simp: dict_get_def map_of_eq_None_iff[symmetric] split: option.splits)

lemma keys_fold_dict_set:
  "fst ` set (fold (\<lambda>(k, v) d. dict_set d k v) ps acc) = fst ` set acc \<union> fst ` set ps"
proof (induction ps arbitrary: acc)
  case Nil
  show ?case by simp
next
  case (Cons p ps)
  obtain k v where p: "p = (k, v)" by (cases p)
  have "fst ` set (dict_set acc k v) = insert k (fst ` set acc)"
    unfolding dict_set_def using update_keys[of k v acc]
    by (metis (no_types, lifting) Un_insert_right append_Nil2 insert_absorb list.set_map
        list.simps(15) set_append)
  then show ?case using p by (simp add: Cons.IH)
qed

lemma keys_dict_of_pairs: "fst ` set (dict_of_pairs ps) = fst ` set ps"
  by (simp add: dict_of_pairs_def keys_fold_dict_set)

lemma keys_id_map:
  "fst ` set (create_id_mapping pkd True) = run_identifier ` {1 .. length pkd} \<union> {''pop''}"
proof -
  have "length (map run_identifier [1 ..< Suc (length pkd)]) = length (sort (map fst pkd))"
    by (simp del: upt_Suc)
  then have "fst ` set (zip (map run_identifier [1 ..< Suc (length pkd)]) (sort (map fst pkd)))
           = set (map run_identifier [1 ..< Suc (length pkd)])"
    by (metis list.set_map map_fst_zip)
  also have "\<dots> = run_identifier ` {1 .. length pkd}"
    by (simp add: atLeastLessThanSuc_atLeastAtMost del: upt_Suc)
  finally show ?thesis
    by (simp add: create_id_mapping_explicit POPULATION_KEYWORD_def)
qed

lemma values_id_map:
  "snd ` set (create_id_mapping pkd True) = fst ` set pkd \<union> {''pop''}"
proof -
  have "length (map run_identifier [1 ..< Suc (length pkd)]) = length (sort (map fst pkd))"
    by (simp del: upt_Suc)
  then have "snd ` set (zip (map run_identifier [1 ..< Suc (length pkd)]) (sort (map fst pkd)))
           = set (sort (map fst pkd))"
    by (metis list.set_map map_snd_zip)
  then show ?thesis
    by (simp add: create_id_mapping_explicit POPULATION_KEYWORD_def)
qed

text \<open>
  Claim C7, as the code has it. Both lookups are guarded by \<open>if self.pkdata\<close>. With a
  non-empty dataset, a run number that is not a key of the identifier map and a subject id
  that is neither a subject of the dataset nor \<open>pop\<close> raise \<open>KeyError\<close>. With an empty
  dataset both lookups return their argument unchanged.
\<close>

theorem lookup_unknown_identifier:
  "(pkd \<noteq> [] \<longrightarrow>
      (sim_rnum \<notin> run_identifier ` {1 .. length pkd} \<union> {''pop''}
         \<longrightarrow> sim_rnum_to_data_id (popkat_data_init pkd) sim_rnum = Inl KeyError)
    \<and> (data_id \<notin> fst ` set pkd \<union> {''pop''}
         \<longrightarrow> data_id_to_sim_rnum (popkat_data_init pkd) data_id = Inl KeyError))
   \<and> (pkd = [] \<longrightarrow>
        sim_rnum_to_data_id (popkat_data_init pkd) sim_rnum = Inr sim_rnum
      \<and> data_id_to_sim_rnum (popkat_data_init pkd) data_id = Inr data_id)"
proof -
  have rev_keys: "fst ` set (rev_id_map (popkat_data_init pkd)) = fst ` set pkd \<union> {''pop''}"
  proof -
    have "fst ` set (rev_id_map (popkat_data_init pkd))
            = fst ` set (map (\<lambda>(k, v). (v, k)) (create_id_mapping pkd True))"
      by (simp add: popkat_data_init_def Let_def keys_dict_of_pairs)
    also have "\<dots> = snd ` set (create_id_mapping pkd True)"
      by force
    finally show ?thesis
      by (simp only: values_id_map)
  qed
  have keys: "fst ` set (id_map (popkat_data_init pkd)) = run_identifier ` {1 .. length pkd} \<union> {''pop''}"
    by (simp add: popkat_data_init_def Let_def keys_id_map)
  have pk: "pkdata (popkat_data_init pkd) = pkd"
    by (simp add: popkat_data_init_def Let_def)
  show ?thesis
  proof (cases "pkd = []")
    case True
    with pk have "pkdata (popkat_data_init pkd) = []"
      by simp
    then show ?thesis
      using True by (simp add: sim_rnum_to_data_id_def data_id_to_sim_rnum_def)
  next
    case False
    with pk have "pkdata (popkat_data_init pkd) \<noteq> []"
      by simp
    then show ?thesis
      using False
      by (simp add: sim_rnum_to_data_id_def data_id_to_sim_rnum_def dict_get_KeyError keys
          rev_keys)
  qed
qed

theorem lookup_unknown_identifier_witness:
  "[(''jh'', ())] \<noteq> []
   \<and> ''s05'' \<notin> run_identifier ` {1 .. length [(''jh'', ())]} \<union> {''pop''}
   \<and> sim_rnum_to_data_id (popkat_data_init [(''jh'', ())]) ''s05'' = Inl KeyError
   \<and> ''xy'' \<notin> fst ` set [(''jh'', ())] \<union> {''pop''}
   \<and> data_id_to_sim_rnum (popkat_data_init [(''jh'', ())]) ''xy'' = Inl KeyError
   \<and> sim_rnum_to_data_id (popkat_data_init ([] :: (string, unit) dict)) ''s05'' = Inr ''s05''
   \<and> data_id_to_sim_rnum (popkat_data_init ([] :: (string, unit) dict)) ''xy'' = Inr ''xy''"
proof -
  have r: "run_identifier (Suc 0) = ''s01''"
    by code_simp
  have a: "''s05'' \<notin> run_identifier ` {1 .. length [(''jh'', ())]} \<union> {''pop''}"
    by (simp add: r)
  have b: "''xy'' \<notin> fst ` set [(''jh'', ())] \<union> {''pop''}"
    by simp
  show ?thesis
    using a b lookup_unknown_identifier[of "[(''jh'', ())]" "''s05''" "''xy''"]
      lookup_unknown_identifier[of "[] :: (string, unit) dict" "''s05''" "''xy''"]
    by simp
qed

text \<open>
  Claim C7 as stated fails for an object built from an empty dataset: the run number
  \<open>s05\<close> is not a key of its identifier map, and the lookup returns \<open>s05\<close>.
\<close>

theorem lookup_passes_through_without_pkdata:
  "''s05'' \<notin> fst ` set (id_map (popkat_data_init ([] :: (string, unit) dict)))
   \<and> sim_rnum_to_data_id (popkat_data_init ([] :: (string, unit) dict)) ''s05'' = Inr ''s05''"
  by code_simp

section \<open>Properties of the pharmacokinetic calculations\<close>

lemma sums_zip:
  assumes "length ys = length xs"
  shows "sum_list (map (\<lambda>(x, y). (a * x + b - y)\<^sup>2) (zip xs ys))
         = sum_list (map (\<lambda>(x, y). (a' * x + b' - y)\<^sup>2) (zip xs ys))
           + 2 * (a - a') * (a' * sum_list (map (\<lambda>x. x * x) xs) + b' * sum_list xs
                             - sum_list (map (\<lambda>(x, y). x * y) (zip xs ys)))
           + 2 * (b - b') * (a' * sum_list xs + b' * real (length xs) - sum_list ys)
           + sum_list (map (\<lambda>x. ((a - a') * x + (b - b'))\<^sup>2) xs)"
  using assms
proof (induction xs arbitrary: ys)
  case Nil
  then show ?case by simp
next
  case (Cons x xs)
  then obtain y ys' where ys: "ys = y # ys'" and l: "length ys' = length xs"
    by (cases ys) auto
  show ?case
    unfolding ys using Cons.IH[OF l]
    by (simp add: power2_eq_square algebra_simps)
qed

lemma sum_sq_dev:
  "sum_list (map (\<lambda>x. (x - c)\<^sup>2) xs)
     = sum_list (map (\<lambda>x. x * x) xs) - 2 * c * sum_list xs + real (length xs) * c\<^sup>2"
  by (induction xs) (simp_all add: power2_eq_square algebra_simps)

lemma sum_sq_zero: "sum_list (map (\<lambda>x. (x - c)\<^sup>2) xs) = 0 \<Longrightarrow> x \<in> set xs \<Longrightarrow> x = (c::real)"
proof (induction xs)
  case Nil
  then show ?case by simp
next
  case (Cons z zs)
  have nn: "0 \<le> sum_list (map (\<lambda>x. (x - c)\<^sup>2) zs)"
    by (rule sum_list_nonneg) auto
  from Cons.prems(1) have "(z - c)\<^sup>2 + sum_list (map (\<lambda>x. (x - c)\<^sup>2) zs) = 0"
    by simp
  with nn have "(z - c)\<^sup>2 = 0" "sum_list (map (\<lambda>x. (x - c)\<^sup>2) zs) = 0"
    by (smt (verit) zero_le_power2)+
  with Cons show ?case by auto
qed

lemma lsq_denominator_pos:
  assumes "\<exists>x\<in>set xs. x \<noteq> hd xs"
  shows "0 < real (length xs) * sum_list (map (\<lambda>x. x * x) xs) - sum_list xs * sum_list xs"
proof -
  let ?n = "real (length xs)"
  from assms have ne: "xs \<noteq> []" by auto
  then have n: "0 < ?n" by simp
  let ?c = "sum_list xs / ?n"
  let ?S = "sum_list (map (\<lambda>x. (x - ?c)\<^sup>2) xs)"
  have "0 \<le> ?S"
    by (rule sum_list_nonneg) auto
  moreover have "?S \<noteq> 0"
  proof
    assume z: "?S = 0"
    from ne have "hd xs \<in> set xs" by simp
    with z have "hd xs = ?c" by (rule sum_sq_zero)
    moreover from assms obtain x where "x \<in> set xs" "x \<noteq> hd xs" by blast
    moreover from z this(1) have "x = ?c" by (rule sum_sq_zero)
    ultimately show False by simp
  qed
  ultimately have pos: "0 < ?S" by simp
  have "?n * ?S = ?n * sum_list (map (\<lambda>x. x * x) xs) - sum_list xs * sum_list xs"
    using n unfolding sum_sq_dev by (simp add: power2_eq_square field_simps)
  moreover have "0 < ?n * ?S"
    using n pos by simp
  ultimately show ?thesis by simp
qed

text \<open>The closed form is the line of least squares when two of the \<open>xs\<close> differ.\<close>

lemma lsq_minimises:
  assumes l: "length ys = length xs" and nd: "\<exists>x\<in>set xs. x \<noteq> hd xs"
  shows "sse xs ys (lsq_slope xs ys) (lsq_intercept xs ys) \<le> sse xs ys a b"
proof -
  let ?n = "real (length xs)"
  let ?sx = "sum_list xs" and ?sy = "sum_list ys"
  let ?sxx = "sum_list (map (\<lambda>x. x * x) xs)"
  let ?sxy = "sum_list (map (\<lambda>(x, y). x * y) (zip xs ys))"
  let ?a = "lsq_slope xs ys" and ?b = "lsq_intercept xs ys"
  from nd have "xs \<noteq> []" by auto
  then have n: "?n \<noteq> 0" by simp
  have D: "?n * ?sxx - ?sx * ?sx \<noteq> 0"
    using lsq_denominator_pos[OF nd] by simp
  have a: "?a * (?n * ?sxx - ?sx * ?sx) = ?n * ?sxy - ?sx * ?sy"
    using D by (simp add: lsq_slope_def Let_def)
  have b: "?n * ?b = ?sy - ?a * ?sx"
    using n by (simp add: lsq_intercept_def)
  have e1: "?a * ?sx + ?b * ?n - ?sy = 0"
    using b by (simp add: algebra_simps)
  have "?n * (?a * ?sxx + ?b * ?sx - ?sxy) = ?a * ?n * ?sxx + (?n * ?b) * ?sx - ?n * ?sxy"
    by (simp add: algebra_simps)
  also have "\<dots> = ?a * ?n * ?sxx + (?sy - ?a * ?sx) * ?sx - ?n * ?sxy"
    by (simp only: b)
  also have "\<dots> = ?a * (?n * ?sxx - ?sx * ?sx) + ?sx * ?sy - ?n * ?sxy"
    by (simp add: algebra_simps)
  also have "\<dots> = 0"
    using a by simp
  finally have e2: "?a * ?sxx + ?b * ?sx - ?sxy = 0"
    using n by simp
  have "sse xs ys a b = sse xs ys ?a ?b + sum_list (map (\<lambda>x. ((a - ?a) * x + (b - ?b))\<^sup>2) xs)"
    unfolding sse_def sums_zip[OF l, of a b ?a ?b] e1 e2 by simp
  moreover have "0 \<le> sum_list (map (\<lambda>x. ((a - ?a) * x + (b - ?b))\<^sup>2) xs)"
    by (rule sum_list_nonneg) auto
  ultimately show ?thesis by simp
qed

lemma calc_elim_rate_const_no_positive:
  "length t = length C \<Longrightarrow> positive_points t C = [] \<Longrightarrow> calc_elim_rate_const t C n = Inl TypeError"
  by (simp add: calc_elim_rate_const_def tail_slice_def polyfit1_def bind_err_def)

lemma tail_slice_map: "tail_slice (map f xs) n = map f (tail_slice xs n)"
  by (simp add: tail_slice_def drop_map)

lemma tail_slice_pos: "0 < n \<Longrightarrow> tail_slice xs n = drop (length xs - nat n) xs"
  by (simp add: tail_slice_def)

lemma length_tail_slice_pos: "0 < n \<Longrightarrow> length (tail_slice xs n) = min (nat n) (length xs)"
  by (auto simp: tail_slice_def)

lemma calc_elim_rate_const_window:
  assumes "length t = length C"
  shows "calc_elim_rate_const t C n =
           bind_err (polyfit1 (map fst (tail_slice (positive_points t C) n))
                       (map (\<lambda>p. ln (snd p)) (tail_slice (positive_points t C) n)))
             (\<lambda>(slope, intercept). Inr (- slope))"
  using assms by (simp add: calc_elim_rate_const_def tail_slice_map case_prod_unfold)

lemma polyfit1_well_posed:
  assumes "\<exists>p\<in>set w. fst p \<noteq> fst (hd w)"
  shows "polyfit1 (map fst w) (map f w) = Inr (lsq_slope (map fst w) (map f w), lsq_intercept (map fst w) (map f w))"
proof -
  from assms have ne: "w \<noteq> []" by auto
  from assms ne have "\<not> list_all (\<lambda>x. x = hd (map fst w)) (map fst w)"
    by (auto simp: list_all_iff hd_map)
  then show ?thesis using ne by (simp add: polyfit1_def)
qed

lemma positive_points_filter: "positive_points t C = filter (\<lambda>p. 0 < snd p) (zip t C)"
  by (simp add: positive_points_def case_prod_unfold)

lemma polyfit1_rank_deficient:
  assumes ne: "w \<noteq> []" and eq: "\<forall>p\<in>set w. fst p = fst (hd w)"
  shows "polyfit1 (map fst w) (map f w) =
           (if fst (hd w) = 0 then Inl LinAlgError
            else Inr (sum_list (map f w) / real (length w) / (2 * fst (hd w)),
                      sum_list (map f w) / real (length w) / 2))"
proof -
  have h: "hd (map fst w) = fst (hd w)"
    using ne by (rule hd_map)
  have "\<forall>x\<in>set (map fst w). x = hd (map fst w)"
    unfolding h using eq by auto
  then have la: "list_all (\<lambda>x. x = hd (map fst w)) (map fst w)"
    unfolding list_all_iff .
  have m: "map fst w \<noteq> []" "length (map fst w) = length (map f w)"
    using ne by simp_all
  show ?thesis
    unfolding polyfit1_def using la m by (simp only: if_True if_False h Let_def length_map refl not_True_eq_False simp_thms)
qed

text \<open>
  Claim C1, as the code has it. For arrays of equal length and a positive window size
  \<open>n\<close>, the points with \<open>C > 0\<close> are kept and the fit is over the window of the last
  \<open>n\<close> of them, or of all of them when fewer than \<open>n\<close> are kept; there is no error for a
  short window as such. The result is that of the fit on the window: \<open>TypeError\<close> when no
  point is kept; when all times of the window are equal (as for a window of one point),
  \<open>LinAlgError\<close> if that time is \<open>0\<close> and otherwise minus the mean of \<open>ln C\<close> over twice
  that time; and when two times of the window differ, the negative slope of the line of
  least squares of \<open>ln C\<close> against \<open>t\<close> over the window.
\<close>

theorem elim_rate_const_window_fit:
  assumes "length t = length C" and "0 < n"
  shows "let pts = filter (\<lambda>p. 0 < snd p) (zip t C);
             w = drop (length pts - nat n) pts;
             ts = map fst w; ls = map (\<lambda>p. ln (snd p)) w in
           length w = min (nat n) (length pts)
         \<and> (length pts < nat n \<longrightarrow> w = pts)
         \<and> calc_elim_rate_const t C n =
             (if w = [] then Inl TypeError
              else if \<forall>p\<in>set w. fst p = fst (hd w)
                   then (if fst (hd w) = 0 then Inl LinAlgError
                         else Inr (- (sum_list ls / real (length ls) / (2 * fst (hd w)))))
                   else Inr (- lsq_slope ts ls))
         \<and> ((\<exists>p\<in>set w. fst p \<noteq> fst (hd w)) \<longrightarrow>
              (\<forall>a b. sse ts ls (lsq_slope ts ls) (lsq_intercept ts ls) \<le> sse ts ls a b))"
proof -
  define pts where "pts = filter (\<lambda>p. 0 < snd p) (zip t C)"
  define w where "w = drop (length pts - nat n) pts"
  define ts where "ts = map fst w"
  define ls where "ls = map (\<lambda>p. ln (snd p)) w"
  have pp: "positive_points t C = pts"
    unfolding pts_def by (rule positive_points_filter)
  have tw: "tail_slice pts n = w"
    unfolding w_def using assms(2) by (rule tail_slice_pos)
  have fit: "calc_elim_rate_const t C n =
               bind_err (polyfit1 ts ls) (\<lambda>(slope, intercept). Inr (- slope))"
    using calc_elim_rate_const_window[OF assms(1), of n] unfolding pp tw ts_def ls_def .
  have a: "length w = min (nat n) (length pts)"
    unfolding w_def by auto
  have b: "length pts < nat n \<longrightarrow> w = pts"
    unfolding w_def by simp
  have c: "calc_elim_rate_const t C n =
             (if w = [] then Inl TypeError
              else if \<forall>p\<in>set w. fst p = fst (hd w)
                   then (if fst (hd w) = 0 then Inl LinAlgError
                         else Inr (- (sum_list ls / real (length ls) / (2 * fst (hd w)))))
                   else Inr (- lsq_slope ts ls))"
  proof (cases "w = []")
    case True
    then have "polyfit1 ts ls = Inl TypeError"
      by (simp add: polyfit1_def ts_def)
    then show ?thesis
      unfolding fit using True by (simp add: bind_err_def)
  next
    case ne: False
    show ?thesis
    proof (cases "\<forall>p\<in>set w. fst p = fst (hd w)")
      case True
      have "polyfit1 ts ls =
              (if fst (hd w) = 0 then Inl LinAlgError
               else Inr (sum_list ls / real (length w) / (2 * fst (hd w)),
                         sum_list ls / real (length w) / 2))"
        unfolding ts_def ls_def using ne True by (rule polyfit1_rank_deficient)
      moreover have "length ls = length w"
        by (simp add: ls_def)
      ultimately have "calc_elim_rate_const t C n =
              (if fst (hd w) = 0 then Inl LinAlgError
               else Inr (- (sum_list ls / real (length ls) / (2 * fst (hd w)))))"
        unfolding fit by (simp add: bind_err_def)
      then show ?thesis
        unfolding if_not_P[OF ne] if_P[OF True] .
    next
      case False
      then have nd: "\<exists>p\<in>set w. fst p \<noteq> fst (hd w)"
        by blast
      have "polyfit1 ts ls = Inr (lsq_slope ts ls, lsq_intercept ts ls)"
        unfolding ts_def ls_def using nd by (rule polyfit1_well_posed)
      then have "calc_elim_rate_const t C n = Inr (- lsq_slope ts ls)"
        unfolding fit by (simp add: bind_err_def)
      then show ?thesis
        unfolding if_not_P[OF ne] if_not_P[OF False] .
    qed
  qed
  have d: "(\<exists>p\<in>set w. fst p \<noteq> fst (hd w)) \<longrightarrow>
             (\<forall>a b. sse ts ls (lsq_slope ts ls) (lsq_intercept ts ls) \<le> sse ts ls a b)"
  proof (intro impI allI)
    fix a b
    assume nd: "\<exists>p\<in>set w. fst p \<noteq> fst (hd w)"
    then have ne: "w \<noteq> []"
      by auto
    have l: "length ls = length ts"
      by (simp add: ls_def ts_def)
    have "hd ts = fst (hd w)"
      unfolding ts_def using ne by (rule hd_map)
    with nd have "\<exists>x\<in>set ts. x \<noteq> hd ts"
      unfolding ts_def by auto
    with l show "sse ts ls (lsq_slope ts ls) (lsq_intercept ts ls) \<le> sse ts ls a b"
      by (rule lsq_minimises)
  qed
  from a b c d show ?thesis
    unfolding Let_def pts_def[symmetric] w_def[symmetric] ts_def[symmetric] ls_def[symmetric]
    by (intro conjI)
qed

theorem elim_rate_const_window_fit_witness:
  "length [0, 1, 2, 3 :: real] = length [1, exp (- 1), 0, exp (- 3) :: real] \<and> (0 :: int) < 2
   \<and> calc_elim_rate_const [0, 1, 2, 3] [1, exp (- 1), 0, exp (- 3)] 2 = Inr 1
   \<and> calc_elim_rate_const [0, 1, 2] [0, exp (- 1), exp (- 2)] 3 = Inr 1
   \<and> calc_elim_rate_const [2, 5] [0, exp 1] 3 = Inr (- (1 / 10))
   \<and> calc_elim_rate_const [0, 1] [3, 0] 3 = Inl LinAlgError
   \<and> calc_elim_rate_const [0, 1] [0, 0] 3 = Inl TypeError"
proof -
  have l1: "length [0, 1, 2, 3 :: real] = length [1, exp (- 1), 0, exp (- 3) :: real]"
    and l2: "length [0, 1, 2 :: real] = length [0, exp (- 1), exp (- 2) :: real]"
    and l3: "length [2, 5 :: real] = length [0, exp 1 :: real]"
    and l4: "length [0, 1 :: real] = length [3, 0 :: real]"
    and l5: "length [0, 1 :: real] = length [0, 0 :: real]"
    and n2: "(0 :: int) < 2" and n3: "(0 :: int) < 3"
    by simp_all
  note r = conjunct1[OF conjunct2[OF conjunct2]]
  have 1: "calc_elim_rate_const [0, 1, 2, 3] [1, exp (- 1), 0, exp (- 3)] 2 = Inr 1"
    using elim_rate_const_window_fit[OF l1 n2, unfolded Let_def, THEN r] by (simp add: lsq_slope_def)
  have 2: "calc_elim_rate_const [0, 1, 2] [0, exp (- 1), exp (- 2)] 3 = Inr 1"
    using elim_rate_const_window_fit[OF l2 n3, unfolded Let_def, THEN r] by (simp add: lsq_slope_def)
  have 3: "calc_elim_rate_const [2, 5] [0, exp 1] 3 = Inr (- (1 / 10))"
    using elim_rate_const_window_fit[OF l3 n3, unfolded Let_def, THEN r] by simp
  have 4: "calc_elim_rate_const [0, 1] [3, 0] 3 = Inl LinAlgError"
    using elim_rate_const_window_fit[OF l4 n3, unfolded Let_def, THEN r] by simp
  have 5: "calc_elim_rate_const [0, 1] [0, 0] 3 = Inl TypeError"
    using elim_rate_const_window_fit[OF l5 n3, unfolded Let_def, THEN r] by simp
  from l1 n2 1 2 3 4 5 show ?thesis
    by simp
qed

text \<open>
  Claim C1 as stated fails: with two positive points and a window of three the code
  raises nothing and returns the slope through the two points.
\<close>

theorem elim_rate_const_short_window_no_error:
  "length (positive_points [0, 1, 2] [0, 1, 1]) < 3
   \<and> calc_elim_rate_const [0, 1, 2] [0, 1, 1] 3 = Inr 0"
  by (simp add: positive_points_def calc_elim_rate_const_def tail_slice_def polyfit1_def
      lsq_slope_def bind_err_def)

lemma calc_AUC_no_tail:
  "calc_elim_rate_const t C n = Inr ke \<Longrightarrow> calc_AUC t C False n = Inr (Fin (trapz C t))"
  by (simp add: calc_AUC_def bind_err_def)

lemma calc_AUC_tail:
  "calc_elim_rate_const t C n = Inr ke \<Longrightarrow> ke \<noteq> 0 \<Longrightarrow>
     calc_AUC t C True n = Inr (Fin (trapz C t + last C / ke))"
  by (simp add: calc_AUC_def bind_err_def)

lemma calc_AUC_fit_error:
  "calc_elim_rate_const t C n = Inl e \<Longrightarrow> calc_AUC t C tail n = Inl e"
  by (simp add: calc_AUC_def bind_err_def)

lemma calc_AUC_example: "calc_AUC [0, 1] [0, 10] False DEF_NINTERP = Inr (Fin 5)"
  by (simp add: calc_AUC_def calc_elim_rate_const_def positive_points_def tail_slice_def
      polyfit1_def bind_err_def DEF_NINTERP_def Let_def)

lemma trapz_sum:
  "length C = length t \<Longrightarrow>
   trapz C t = (\<Sum>i<length t - 1. (t ! Suc i - t ! i) * (C ! Suc i + C ! i) / 2)"
proof (induction C t rule: trapz.induct)
  case (1 y0 y1 ys x0 x1 xs)
  then have l: "length (y1 # ys) = length (x1 # xs)" by simp
  have "(\<Sum>i<length (x0 # x1 # xs) - 1.
           ((x0 # x1 # xs) ! Suc i - (x0 # x1 # xs) ! i) * ((y0 # y1 # ys) ! Suc i + (y0 # y1 # ys) ! i) / 2)
        = (\<Sum>i<Suc (length xs).
           ((x0 # x1 # xs) ! Suc i - (x0 # x1 # xs) ! i) * ((y0 # y1 # ys) ! Suc i + (y0 # y1 # ys) ! i) / 2)"
    by simp
  also have "\<dots> = (x1 - x0) * (y1 + y0) / 2
        + (\<Sum>i<length xs. ((x1 # xs) ! Suc i - (x1 # xs) ! i) * ((y1 # ys) ! Suc i + (y1 # ys) ! i) / 2)"
    unfolding sum.lessThan_Suc_shift by simp
  also have "\<dots> = (x1 - x0) * (y1 + y0) / 2 + trapz (y1 # ys) (x1 # xs)"
    using "1.IH"[OF l] by simp
  finally show ?case by simp
qed (simp_all add: length_Suc_conv)

text \<open>
  Whenever the fit of the elimination rate returns a value, the area without the tail is
  the trapezoid sum, and the area with the tail adds the last concentration divided by
  the rate constant (a special value for a rate constant of zero).
\<close>

lemma calc_AUC_trapezoid:
  assumes "calc_elim_rate_const t C n = Inr ke"
  shows "calc_AUC t C False n = Inr (Fin (trapz C t))
       \<and> calc_AUC t C True n = Inr (if ke = 0 then Special else Fin (trapz C t + last C / ke))
       \<and> trapz C t = (\<Sum>i<length t - 1. (t ! Suc i - t ! i) * (C ! Suc i + C ! i) / 2)
       \<and> calc_AUC [0, 1] [0, 10] False DEF_NINTERP = Inr (Fin 5)"
proof -
  from assms have "length C = length t"
    by (auto simp: calc_elim_rate_const_def split: if_splits)
  then have "trapz C t = (\<Sum>i<length t - 1. (t ! Suc i - t ! i) * (C ! Suc i + C ! i) / 2)"
    by (rule trapz_sum)
  moreover have "calc_AUC t C True n = Inr (if ke = 0 then Special else Fin (trapz C t + last C / ke))"
    using assms by (simp add: calc_AUC_def bind_err_def)
  ultimately show ?thesis
    using assms calc_AUC_no_tail calc_AUC_example by simp
qed

text \<open>
  Claim C8. The area under the curve without the tail is to be the trapezoid sum of \<open>C\<close>
  over \<open>t\<close>, which is \<open>0\<close> for a concentration that is zero throughout. The code fits the
  elimination rate first, although its value is not used without the tail, and the fit
  raises \<open>TypeError\<close> when no concentration is positive.
\<close>

theorem calc_AUC_raises_without_positive_points: "calc_AUC [0, 1] [0, 0] False DEF_NINTERP = Inl TypeError"
  by (simp add: calc_AUC_def calc_elim_rate_const_def positive_points_def tail_slice_def
      polyfit1_def bind_err_def DEF_NINTERP_def)

text \<open>
  Claim C10, as the code has it. The area without the tail fails exactly when the fit of
  the elimination rate fails, with the same error; with no positive concentration that
  is \<open>TypeError\<close>. Whenever the fit returns a value, the area is the trapezoid sum, also
  when fewer positive points than the window remain.
\<close>

theorem calc_AUC_no_tail_follows_fit:
  assumes "length t = length C"
  shows "(positive_points t C = [] \<longrightarrow> calc_AUC t C False n = Inl TypeError)
       \<and> (\<forall>e. calc_elim_rate_const t C n = Inl e \<longrightarrow> calc_AUC t C False n = Inl e)
       \<and> (\<forall>ke. calc_elim_rate_const t C n = Inr ke \<longrightarrow> calc_AUC t C False n = Inr (Fin (trapz C t)))"
  using assms
  by (auto simp: calc_AUC_fit_error calc_AUC_no_tail calc_elim_rate_const_no_positive)

text \<open>
  Claim C10 as stated fails: with two positive points and the default window of three
  the area without the tail is returned, and it is the trapezoid sum.
\<close>

theorem calc_AUC_short_window_returns_integral:
  "length (positive_points [0, 1, 2] [0, 1, 1]) < nat DEF_NINTERP
   \<and> calc_AUC [0, 1, 2] [0, 1, 1] False DEF_NINTERP = Inr (Fin (trapz [0, 1, 1] [0, 1, 2]))
   \<and> trapz [0, 1, 1] [0, 1, 2] = 3 / 2"
  by (simp add: calc_AUC_def calc_elim_rate_const_def positive_points_def tail_slice_def
      polyfit1_def lsq_slope_def bind_err_def DEF_NINTERP_def)

theorem calc_AUC_no_tail_follows_fit_witness:
  "length [0, 1 :: real] = length [0, 0 :: real]
   \<and> positive_points [0, 1] [0, 0] = []
   \<and> calc_AUC [0, 1] [0, 0] False 3 = Inl TypeError
   \<and> calc_elim_rate_const [0, 1, 2] [0, 1, 1] 3 = Inr 0
   \<and> calc_AUC [0, 1, 2] [0, 1, 1] False 3 = Inr (Fin (3 / 2))"
proof -
  have l1: "length [0, 1 :: real] = length [0, 0 :: real]"
    and l2: "length [0, 1, 2 :: real] = length [0, 1, 1 :: real]"
    by simp_all
  have p: "positive_points [0, 1] [0, 0] = []"
    by (simp add: positive_points_def)
  have k: "calc_elim_rate_const [0, 1, 2] [0, 1, 1] 3 = Inr 0"
    by (simp add: positive_points_def calc_elim_rate_const_def tail_slice_def polyfit1_def
      lsq_slope_def bind_err_def)
  from calc_AUC_no_tail_follows_fit[OF l1, of 3] calc_AUC_no_tail_follows_fit[OF l2, of 3] p k show ?thesis
    by simp
qed

lemma bind_err_Inr: "bind_err r f = Inr y \<longleftrightarrow> (\<exists>v. r = Inr v \<and> f v = Inr y)"
  by (cases r) (simp_all add: bind_err_def)

lemma keys_base_dict:
  "map fst (dict_set (dict_set (dict_set (dict_set (dict_set (dict_set (dict_set []
       ''AUC'' a) ''AUC_inf'' b) ''MRT'' c) ''tmax'' d) ''Cmax'' e) ''kelim'' f) ''t_half'' g)
   = base_keys"
  by (simp add: dict_set_def base_keys_def)

lemma keys_dose_dict:
  "map fst pk = base_keys \<Longrightarrow>
   map fst (dict_set (dict_set pk ''clearance'' cl) ''volume_of_distribution'' vd)
     = base_keys @ [''clearance'', ''volume_of_distribution'']"
  by (simp add: dict_set_def update_keys base_keys_def)

lemma calc_all_pk_result_keys:
  assumes "calc_all_pk t C dose n = Inr pk"
  shows "map fst pk = base_keys @
           (if dose = None \<or> dose = Some 0 then [] else [''clearance'', ''volume_of_distribution''])"
proof -
  from assms obtain a b c d e f g where
    r: "(let pk0 = dict_set (dict_set (dict_set (dict_set (dict_set (dict_set (dict_set []
                  ''AUC'' a) ''AUC_inf'' b) ''MRT'' c) ''tmax'' (Fin d))
                  ''Cmax'' (Fin e)) ''kelim'' (Fin f)) ''t_half'' g
       in case dose of
            None \<Rightarrow> Inr pk0
          | Some d \<Rightarrow>
              if d = 0 then Inr pk0
              else bind_err (calc_clearance t C d n) (\<lambda>cl.
                   bind_err (calc_volume_of_distribution t C d n) (\<lambda>vd.
                     Inr (dict_set (dict_set pk0 ''clearance'' cl)
                            ''volume_of_distribution'' vd)))) = Inr pk"
    unfolding calc_all_pk_def bind_err_Inr by blast
  let ?pk0 = "dict_set (dict_set (dict_set (dict_set (dict_set (dict_set (dict_set []
                  ''AUC'' a) ''AUC_inf'' b) ''MRT'' c) ''tmax'' (Fin d))
                  ''Cmax'' (Fin e)) ''kelim'' (Fin f)) ''t_half'' g"
  have k0: "map fst ?pk0 = base_keys"
    by (rule keys_base_dict)
  show ?thesis
  proof (cases dose)
    case None
    with r have "pk = ?pk0" by (simp add: Let_def)
    with k0 None show ?thesis by simp
  next
    case (Some x)
    show ?thesis
    proof (cases "x = 0")
      case True
      with r Some have "pk = ?pk0" by (simp add: Let_def)
      with k0 Some True show ?thesis by simp
    next
      case False
      with r Some obtain cl vd where
        "pk = dict_set (dict_set ?pk0 ''clearance'' cl) ''volume_of_distribution'' vd"
        unfolding Let_def by (auto simp: bind_err_Inr)
      with keys_dose_dict[OF k0] Some False show ?thesis by simp
    qed
  qed
qed

lemma argmax_from_bound: "best < i \<Longrightarrow> argmax_from best bv i xs < i + length xs"
proof (induction xs arbitrary: best bv i)
  case Nil
  then show ?case by simp
next
  case (Cons x xs)
  have "argmax_from i x (Suc i) xs < Suc i + length xs"
    by (rule Cons.IH) simp
  moreover have "argmax_from best bv (Suc i) xs < Suc i + length xs"
    by (rule Cons.IH) (use Cons.prems in simp)
  ultimately show ?case by simp
qed

lemma argmax_bound: "argmax C = Inr i \<Longrightarrow> i < length C"
proof (cases C)
  case Nil
  assume "argmax C = Inr i"
  with Nil show ?thesis by (simp add: argmax_def)
next
  case (Cons x xs)
  assume "argmax C = Inr i"
  with Cons have "i = argmax_from 0 x 1 xs" by (simp add: argmax_def)
  moreover have "argmax_from 0 x 1 xs < 1 + length xs"
    by (rule argmax_from_bound) simp
  ultimately show ?thesis using Cons by simp
qed

lemma argmax_nonempty: "C \<noteq> [] \<Longrightarrow> \<exists>i. argmax C = Inr i"
  by (cases C) (simp_all add: argmax_def)

lemma calc_elim_rate_const_Inr_facts:
  assumes "calc_elim_rate_const t C n = Inr ke"
  shows "length t = length C" and "C \<noteq> []"
proof -
  show l: "length t = length C"
    using assms by (auto simp: calc_elim_rate_const_def split: if_splits)
  show "C \<noteq> []"
  proof
    assume "C = []"
    then have "positive_points t C = []" by (simp add: positive_points_def)
    with l have "calc_elim_rate_const t C n = Inl TypeError"
      by (rule calc_elim_rate_const_no_positive)
    with assms show False by simp
  qed
qed

lemma calc_all_pk_returns:
  assumes "calc_elim_rate_const t C n = Inr ke"
  shows "\<exists>pk. calc_all_pk t C dose n = Inr pk"
proof -
  note f = calc_elim_rate_const_Inr_facts[OF assms]
  from f(2) obtain i where i: "argmax C = Inr i"
    using argmax_nonempty by blast
  then have b: "i < length C" by (rule argmax_bound)
  have 1: "calc_tmax t C = Inr (t ! i)" "calc_cmax t C = Inr (C ! i)"
    using i b f(1) by (simp_all add: calc_tmax_def calc_cmax_def bind_err_def array_get_def)
  show ?thesis
    using assms f(1) 1
    by (cases dose)
       (simp_all add: calc_all_pk_def calc_AUC_def calc_mean_residence_time_def
          calc_elim_half_life_def calc_clearance_def calc_volume_of_distribution_def
          bind_err_def Let_def)
qed

text \<open>
  Claim C9, as the code has it. \<open>calc_all_pk\<close> returns a parameter set whenever the fit of
  the elimination rate returns a value. Every parameter set it returns has the entries
  \<open>AUC\<close>, \<open>AUC_inf\<close>, \<open>MRT\<close>, \<open>tmax\<close>, \<open>Cmax\<close>, \<open>kelim\<close> and \<open>t_half\<close>, followed by
  \<open>clearance\<close> and \<open>volume_of_distribution\<close> exactly when a dose other than zero is
  supplied.
\<close>

theorem calc_all_pk_keys:
  "(\<forall>ke. calc_elim_rate_const t C n = Inr ke \<longrightarrow> (\<exists>pk. calc_all_pk t C dose n = Inr pk))
   \<and> (\<forall>pk. calc_all_pk t C dose n = Inr pk \<longrightarrow>
         map fst pk = base_keys @
           (if dose = None \<or> dose = Some 0 then []
            else [''clearance'', ''volume_of_distribution'']))"
  using calc_all_pk_returns calc_all_pk_result_keys by blast

theorem calc_all_pk_keys_witness:
  "calc_elim_rate_const [0, 1, 2, 3] [1, exp (- 1), exp (- 2), exp (- 3)] 3 = Inr 1
   \<and> (\<exists>pk. calc_all_pk [0, 1, 2, 3] [1, exp (- 1), exp (- 2), exp (- 3)] (Some 100) 3 = Inr pk
       \<and> map fst pk = [''AUC'', ''AUC_inf'', ''MRT'', ''tmax'', ''Cmax'', ''kelim'', ''t_half'',
                        ''clearance'', ''volume_of_distribution''])
   \<and> (\<exists>pk. calc_all_pk [0, 1, 2, 3] [1, exp (- 1), exp (- 2), exp (- 3)] None 3 = Inr pk
       \<and> map fst pk = [''AUC'', ''AUC_inf'', ''MRT'', ''tmax'', ''Cmax'', ''kelim'', ''t_half''])"
proof -
  let ?t = "[0, 1, 2, 3 :: real]" and ?C = "[1, exp (- 1), exp (- 2), exp (- 3) :: real]"
  have k: "calc_elim_rate_const ?t ?C 3 = Inr 1"
    by (simp add: positive_points_def calc_elim_rate_const_def tail_slice_def polyfit1_def
      lsq_slope_def bind_err_def)
  from k calc_all_pk_keys[of ?t ?C 3 "Some 100"] obtain pk1 where
    1: "calc_all_pk ?t ?C (Some 100) 3 = Inr pk1"
    by blast
  from k calc_all_pk_keys[of ?t ?C 3 None] obtain pk2 where
    2: "calc_all_pk ?t ?C None 3 = Inr pk2"
    by blast
  from calc_all_pk_keys[of ?t ?C 3 "Some 100"] 1
  have 3: "map fst pk1 = base_keys @ [''clearance'', ''volume_of_distribution'']"
    by simp
  from calc_all_pk_keys[of ?t ?C 3 None] 2
  have 4: "map fst pk2 = base_keys"
    by simp
  from k 1 2 3 4 show ?thesis
    by (simp add: base_keys_def)
qed

text \<open>
  Claim C9 as stated fails: a dose of \<open>0\<close> is supplied, and the result has the seven
  entries without the clearance and the volume of distribution.
\<close>

theorem calc_all_pk_zero_dose_omits_clearance:
  "map_sum id (map fst) (calc_all_pk [0, 1, 2, 3] [1, exp (- 1), exp (- 2), exp (- 3)] (Some 0) 3)
     = Inr [''AUC'', ''AUC_inf'', ''MRT'', ''tmax'', ''Cmax'', ''kelim'', ''t_half'']"
  by (simp add: calc_all_pk_def calc_AUC_def calc_mean_residence_time_def
          calc_elim_half_life_def calc_tmax_def calc_cmax_def argmax_def array_get_def
          positive_points_def calc_elim_rate_const_def tail_slice_def polyfit1_def
          lsq_slope_def bind_err_def Let_def dict_set_def)

section \<open>Properties of the residuals\<close>

lemma rel_diff_cases:
  "rel_diff obs vi = (if obs = 0 then Special else Fin ((obs - vi) / obs))"
  by (simp add: rel_diff_def)

lemma interp_scan_segment:
  assumes "sorted xp" "length fp = length xp" "Suc j < length xp" "xp ! j \<le> x" "x < xp ! Suc j"
  shows "interp_scan x (zip xp fp)
           = fp ! j + (fp ! Suc j - fp ! j) * (x - xp ! j) / (xp ! Suc j - xp ! j)"
  using assms
proof (induction xp arbitrary: fp j)
  case Nil
  then show ?case by simp
next
  case (Cons x0 xs)
  from Cons.prems(2,3) obtain y0 ys where fp: "fp = y0 # ys" and lys: "length ys = length xs"
    by (cases fp) auto
  from Cons.prems(3) obtain x1 xs' where xs: "xs = x1 # xs'"
    by (cases xs) auto
  from lys xs obtain y1 ys' where ys: "ys = y1 # ys'"
    by (cases ys) auto
  show ?case
  proof (cases j)
    case 0
    with Cons.prems fp xs ys show ?thesis
      by (simp add: field_simps)
  next
    case (Suc k)
    from Cons.prems(1) have s: "sorted xs" by simp
    have "x1 \<le> xs ! k"
      using Cons.prems(1,3) Suc xs s sorted_nth_mono[of xs 0 k] by simp
    with Cons.prems(4) Suc have nx: "\<not> x < x1" by simp
    have "interp_scan x (zip xs ys)
           = ys ! k + (ys ! Suc k - ys ! k) * (x - xs ! k) / (xs ! Suc k - xs ! k)"
      using Cons.prems Suc fp lys s by (intro Cons.IH) simp_all
    with nx fp xs ys Suc show ?thesis by simp
  qed
qed

lemma interp_scan_last:
  assumes "sorted xp" "length fp = length xp" "xp \<noteq> []" "x = last xp"
  shows "interp_scan x (zip xp fp) = last fp"
  using assms
proof (induction xp arbitrary: fp)
  case Nil
  then show ?case by simp
next
  case (Cons x0 xs)
  from Cons.prems(2) obtain y0 ys where fp: "fp = y0 # ys" and lys: "length ys = length xs"
    by (cases fp) auto
  show ?case
  proof (cases xs)
    case Nil
    with fp lys show ?thesis by simp
  next
    case (Cons x1 xs')
    with lys obtain y1 ys' where ys: "ys = y1 # ys'"
      by (cases ys) auto
    from Cons.prems(1) Cons have "x1 \<le> last xs"
      by (metis last_in_set list.distinct(1) order_refl set_ConsD sorted_simps(2))
    with Cons.prems(4) Cons have nx: "\<not> x < x1" by simp
    have "interp_scan x (zip xs ys) = last ys"
      using Cons.prems Cons lys by (intro Cons.IH) simp_all
    with nx fp Cons ys show ?thesis by simp
  qed
qed

lemma hd_le_last: "sorted xp \<Longrightarrow> xp \<noteq> [] \<Longrightarrow> hd xp \<le> (last xp :: real)"
  by (cases xp) (auto simp: )

lemma interp_at_clamped_linear:
  assumes "sorted xp" "xp \<noteq> []" "length fp = length xp"
  shows "(x < hd xp \<longrightarrow> interp_at x xp fp = hd fp)
       \<and> (last xp \<le> x \<longrightarrow> interp_at x xp fp = last fp)
       \<and> (\<forall>j. Suc j < length xp \<and> xp ! j \<le> x \<and> x < xp ! Suc j \<longrightarrow>
              interp_at x xp fp
                = fp ! j + (fp ! Suc j - fp ! j) * (x - xp ! j) / (xp ! Suc j - xp ! j))"
proof (intro conjI impI allI)
  note hl = hd_le_last[OF assms(1,2)]
  show "interp_at x xp fp = hd fp" if "x < hd xp"
    using that hl by (simp add: interp_at_def)
  show "interp_at x xp fp = last fp" if "last xp \<le> x"
  proof (cases "last xp < x")
    case True
    then show ?thesis by (simp add: interp_at_def)
  next
    case False
    with that have e: "x = last xp" by simp
    with hl have "\<not> x < hd xp" by simp
    with False show ?thesis
      using interp_scan_last[OF assms(1,3,2) e] by (simp add: interp_at_def)
  qed
  fix j
  assume j: "Suc j < length xp \<and> xp ! j \<le> x \<and> x < xp ! Suc j"
  have "hd xp \<le> xp ! j"
    using assms(1,2) j sorted_nth_mono[of xp 0 j] by (simp add: hd_conv_nth)
  with j have 1: "\<not> x < hd xp" by simp
  have "Suc j \<le> length xp - 1"
    using j by linarith
  then have "xp ! Suc j \<le> last xp"
    using assms(1,2) sorted_nth_mono[of xp "Suc j" "length xp - 1"] by (simp add: last_conv_nth)
  with j have 2: "\<not> last xp < x" by simp
  from 1 2 show "interp_at x xp fp
                = fp ! j + (fp ! Suc j - fp ! j) * (x - xp ! j) / (xp ! Suc j - xp ! j)"
    using interp_scan_segment[OF assms(1,3), of j x] j by (simp add: interp_at_def)
qed

lemma set_unique: "set (unique xs) = set xs"
  by (simp add: unique_def)

lemma diff_for_ident_rows:
  assumes "idt \<in> ident ` set sim_df"
  shows "diff_for_ident sim_df data_df ov idt =
           Inr (map (\<lambda>d. \<lparr>d_time = time d,
                       dep_var_diff = rel_diff (dep_var d)
                         (interp_at (time d) (map time (filter (\<lambda>r. ident r = idt) sim_df))
                            (map dep_var (filter (\<lambda>r. ident r = idt) sim_df))),
                       d_ident = idt, d_measure = ov\<rparr>)
                  (filter (\<lambda>r. ident r = idt) data_df))"
proof -
  from assms have ne: "filter (\<lambda>r. ident r = idt) sim_df \<noteq> []"
    by (auto simp: filter_empty_conv)
  show ?thesis
    using ne
    by (simp add: diff_for_ident_def np_interp_def bind_err_def Let_def zip_map2 zip_same_conv_map
        comp_def)
qed

lemma calc_df_diff_loop_rows:
  assumes "set idents \<subseteq> ident ` set sim_df"
  shows "calc_df_diff_loop sim_df data_df ov idents df_all =
           Inr (df_all @ concat (map (\<lambda>idt.
                  map (\<lambda>d. \<lparr>d_time = time d,
                       dep_var_diff = rel_diff (dep_var d)
                         (interp_at (time d) (map time (filter (\<lambda>r. ident r = idt) sim_df))
                            (map dep_var (filter (\<lambda>r. ident r = idt) sim_df))),
                       d_ident = idt, d_measure = ov\<rparr>)
                  (filter (\<lambda>r. ident r = idt) data_df)) idents))"
  using assms
proof (induction idents arbitrary: df_all)
  case Nil
  show ?case by simp
next
  case (Cons idt idents)
  from Cons.prems have "idt \<in> ident ` set sim_df" and "set idents \<subseteq> ident ` set sim_df"
    by simp_all
  then show ?case
    by (simp add: diff_for_ident_rows Cons.IH bind_err_def)
qed

lemma calc_df_diff_rows:
  "calc_df_diff sim_df data_df ov =
     Inr (concat (map (\<lambda>idt.
            map (\<lambda>d. \<lparr>d_time = time d,
                 dep_var_diff = rel_diff (dep_var d)
                   (interp_at (time d) (map time (filter (\<lambda>r. ident r = idt) sim_df))
                      (map dep_var (filter (\<lambda>r. ident r = idt) sim_df))),
                 d_ident = idt, d_measure = ov\<rparr>)
            (filter (\<lambda>r. ident r = idt) data_df)) (unique (map ident sim_df))))"
  unfolding calc_df_diff_def
  by (subst calc_df_diff_loop_rows) (simp_all add: set_unique)

lemma fwd_calc_df_diff_loop_rows:
  assumes "sim_df \<noteq> []"
  shows "fwd_calc_df_diff_loop sim_df data_df ov idents df_all =
           Inr (df_all @ concat (map (\<lambda>idt.
                  map (\<lambda>d. \<lparr>d_time = time d,
                       dep_var_diff = rel_diff (dep_var d)
                         (interp_at (time d) (map time sim_df) (map dep_var sim_df)),
                       d_ident = [], d_measure = ov\<rparr>) data_df) idents))"
proof (induction idents arbitrary: df_all)
  case Nil
  show ?case by simp
next
  case (Cons idt idents)
  have "fwd_diff_block sim_df data_df ov =
          Inr (map (\<lambda>d. \<lparr>d_time = time d,
                       dep_var_diff = rel_diff (dep_var d)
                         (interp_at (time d) (map time sim_df) (map dep_var sim_df)),
                       d_ident = [], d_measure = ov\<rparr>) data_df)"
    using assms
    by (simp add: fwd_diff_block_def np_interp_def bind_err_def zip_map2 zip_same_conv_map
        comp_def)
  then show ?case
    by (simp add: Cons.IH bind_err_def)
qed

text \<open>
  The variant of the forward analysis computes the same relative differences, over the
  whole frames, once for every identifier of the simulation.
\<close>

lemma fwd_calc_df_diff_rows:
  "fwd_calc_df_diff sim_df data_df ov =
     Inr (concat (map (\<lambda>idt.
            map (\<lambda>d. \<lparr>d_time = time d,
                 dep_var_diff = rel_diff (dep_var d)
                   (interp_at (time d) (map time sim_df) (map dep_var sim_df)),
                 d_ident = [], d_measure = ov\<rparr>) data_df) (unique (map ident sim_df))))"
proof (cases "sim_df = []")
  case True
  then show ?thesis
    by (simp add: fwd_calc_df_diff_def unique_def)
next
  case False
  then show ?thesis
    by (simp add: fwd_calc_df_diff_def fwd_calc_df_diff_loop_rows)
qed

text \<open>
  The residuals of the Monte Carlo analysis are, for every identifier of the simulation in turn and every
  observed row of that identifier, the relative difference
  \<open>(observed - interpolated) / observed\<close> at the observed time, where the simulated values
  of the identifier are interpolated at that time; for an observed value of \<open>0\<close> the
  result is a special value and nothing is raised. For increasing simulated times the
  interpolation is the first simulated value before the first time, the last one from
  the last time on, and linear between two consecutive times. Observed values \<open>2, 4\<close>
  against interpolated values \<open>2, 2\<close> give \<open>0\<close> and \<open>1/2\<close>.
\<close>

lemma calc_df_diff_relative_difference:
  "calc_df_diff sim_df data_df ov =
     Inr (concat (map (\<lambda>idt.
            map (\<lambda>d. \<lparr>d_time = time d,
                 dep_var_diff =
                   (if dep_var d = 0 then Special
                    else Fin ((dep_var d
                           - interp_at (time d) (map time (filter (\<lambda>r. ident r = idt) sim_df))
                               (map dep_var (filter (\<lambda>r. ident r = idt) sim_df))) / dep_var d)),
                 d_ident = idt, d_measure = ov\<rparr>)
            (filter (\<lambda>r. ident r = idt) data_df)) (unique (map ident sim_df))))
   \<and> (\<forall>xp fp x. sorted xp \<and> xp \<noteq> [] \<and> length fp = length xp \<longrightarrow>
          (x < hd xp \<longrightarrow> interp_at x xp fp = hd fp)
        \<and> (last xp \<le> x \<longrightarrow> interp_at x xp fp = last fp)
        \<and> (\<forall>j. Suc j < length xp \<and> xp ! j \<le> x \<and> x < xp ! Suc j \<longrightarrow>
               interp_at x xp fp
                 = fp ! j + (fp ! Suc j - fp ! j) * (x - xp ! j) / (xp ! Suc j - xp ! j)))
   \<and> map (\<lambda>(obs, vi). rel_diff obs vi) (zip [2, 4] [2, 2]) = [Fin 0, Fin (1 / 2)]"
proof (intro conjI)
  show "calc_df_diff sim_df data_df ov =
     Inr (concat (map (\<lambda>idt.
            map (\<lambda>d. \<lparr>d_time = time d,
                 dep_var_diff =
                   (if dep_var d = 0 then Special
                    else Fin ((dep_var d
                           - interp_at (time d) (map time (filter (\<lambda>r. ident r = idt) sim_df))
                               (map dep_var (filter (\<lambda>r. ident r = idt) sim_df))) / dep_var d)),
                 d_ident = idt, d_measure = ov\<rparr>)
            (filter (\<lambda>r. ident r = idt) data_df)) (unique (map ident sim_df))))"
    by (simp only: calc_df_diff_rows rel_diff_cases)
  show "\<forall>xp fp x. sorted xp \<and> xp \<noteq> [] \<and> length fp = length xp \<longrightarrow>
          (x < hd xp \<longrightarrow> interp_at x xp fp = hd fp)
        \<and> (last xp \<le> x \<longrightarrow> interp_at x xp fp = last fp)
        \<and> (\<forall>j. Suc j < length xp \<and> xp ! j \<le> x \<and> x < xp ! Suc j \<longrightarrow>
               interp_at x xp fp
                 = fp ! j + (fp ! Suc j - fp ! j) * (x - xp ! j) / (xp ! Suc j - xp ! j))"
    using interp_at_clamped_linear by blast
  show "map (\<lambda>(obs, vi). rel_diff obs vi) (zip [2, 4] [2, 2]) = [Fin 0, Fin (1 / 2)]"
    by (simp add: rel_diff_def)
qed

lemma calc_df_diff_relative_difference_example:
  "sorted [0, 10 :: real] \<and> [0, 10 :: real] \<noteq> [] \<and> length [2, 4 :: real] = length [0, 10 :: real]
   \<and> interp_at (- 1) [0, 10] [2, 4] = 2
   \<and> interp_at 11 [0, 10] [2, 4] = 4
   \<and> interp_at 5 [0, 10] [2, 4] = 3
   \<and> calc_df_diff
        [\<lparr>ident = ''s01'', time = 0, dep_var = 2\<rparr>, \<lparr>ident = ''s01'', time = 10, dep_var = 2\<rparr>]
        [\<lparr>ident = ''s01'', time = 1, dep_var = 2\<rparr>, \<lparr>ident = ''s01'', time = 5, dep_var = 4\<rparr>,
         \<lparr>ident = ''s01'', time = 7, dep_var = 0\<rparr>] ''C_central''
      = Inr [\<lparr>d_time = 1, dep_var_diff = Fin 0, d_ident = ''s01'', d_measure = ''C_central''\<rparr>,
             \<lparr>d_time = 5, dep_var_diff = Fin (1 / 2), d_ident = ''s01'', d_measure = ''C_central''\<rparr>,
             \<lparr>d_time = 7, dep_var_diff = Special, d_ident = ''s01'', d_measure = ''C_central''\<rparr>]"
proof -
  let ?sim = "[\<lparr>ident = ''s01'', time = 0, dep_var = 2\<rparr>, \<lparr>ident = ''s01'', time = 10, dep_var = 2\<rparr>]"
  let ?dat = "[\<lparr>ident = ''s01'', time = 1, dep_var = 2\<rparr>, \<lparr>ident = ''s01'', time = 5, dep_var = 4\<rparr>,
         \<lparr>ident = ''s01'', time = 7, dep_var = 0\<rparr>]"
  note c4 = calc_df_diff_relative_difference[of ?sim ?dat "''C_central''"]
  have h: "sorted [0, 10 :: real] \<and> [0, 10 :: real] \<noteq> [] \<and> length [2, 4 :: real] = length [0, 10 :: real]"
    by simp
  from c4 h have i:
     "((- 1 :: real) < hd [0, 10] \<longrightarrow> interp_at (- 1) [0, 10] [2, 4] = hd [2, 4])"
     "(last [0, 10] \<le> (11 :: real) \<longrightarrow> interp_at 11 [0, 10] [2, 4] = last [2, 4])"
     "(Suc 0 < length [0, 10 :: real] \<and> [0, 10] ! 0 \<le> (5 :: real) \<and> (5 :: real) < [0, 10] ! Suc 0 \<longrightarrow>
         interp_at 5 [0, 10] [2, 4]
           = [2, 4] ! 0 + ([2, 4] ! Suc 0 - [2, 4] ! 0) * (5 - [0, 10] ! 0) / ([0, 10] ! Suc 0 - [0, 10] ! 0))"
    by blast+
  then have v: "interp_at (- 1) [0, 10] [2, 4] = 2" "interp_at 11 [0, 10] [2, 4] = 4"
    "interp_at 5 [0, 10] [2, 4] = 3"
    by simp_all
  have s1: "interp_at 1 [0, 10] [2, 2] = 2" "interp_at 5 [0, 10] [2, 2] = 2"
    by (simp_all add: interp_at_def)
  from c4 have "calc_df_diff ?sim ?dat ''C_central''
      = Inr [\<lparr>d_time = 1, dep_var_diff = Fin 0, d_ident = ''s01'', d_measure = ''C_central''\<rparr>,
             \<lparr>d_time = 5, dep_var_diff = Fin (1 / 2), d_ident = ''s01'', d_measure = ''C_central''\<rparr>,
             \<lparr>d_time = 7, dep_var_diff = Special, d_ident = ''s01'', d_measure = ''C_central''\<rparr>]"
    by (simp add: unique_def s1)
  with h v show ?thesis by simp
qed

lemma distinct_unique: "distinct (unique xs)"
  by (simp add: unique_def)


section \<open>Properties of the ensemble quantiles\<close>

lemma sort_replicate: "sort (replicate n (v :: real)) = replicate n v"
  by (rule sorted_sort_id) (simp add: sorted_replicate)

lemma col_quantile_replicate:
  assumes "0 < n" "0 \<le> q" "q \<le> 1"
  shows "col_quantile q (replicate n v) = v"
proof -
  let ?h = "q * real (n - 1)"
  have "?h \<le> real (n - 1)"
    using assms(2,3) by (simp add: mult_left_le_one_le)
  then have "\<lfloor>?h\<rfloor> \<le> int (n - 1)"
    by (simp add: floor_le_iff)
  then have "nat \<lfloor>?h\<rfloor> \<le> n - 1"
    by simp
  with assms(1) have lo: "nat \<lfloor>?h\<rfloor> < n"
    by simp
  have hi: "min (nat \<lfloor>?h\<rfloor> + 1) (n - 1) < n"
    using assms(1) by simp
  show ?thesis
    using lo hi by (simp add: col_quantile_def sort_replicate Let_def)
qed

lemma columns_replicate:
  "0 < n \<Longrightarrow> columns (replicate n row) = map (\<lambda>j. replicate n (row ! j)) [0 ..< length row]"
  by (cases n) (simp_all add: columns_def map_replicate)

lemma quantile_row_replicate:
  assumes "0 < n" "0 \<le> q" "q \<le> 1"
  shows "map (col_quantile q) (columns (replicate n row)) = row"
proof -
  have "map (col_quantile q) (columns (replicate n row)) = map (\<lambda>j. row ! j) [0 ..< length row]"
    using assms by (simp add: columns_replicate col_quantile_replicate)
  then show ?thesis
    by (simp add: map_nth)
qed

lemma calc_confint_out_of_range:
  assumes "\<exists>q\<in>set quants. q < 0 \<or> 1 < q"
  shows "calc_confint df quants = Inl ValueError"
proof -
  from assms obtain q where "q \<in> set quants" "\<not> (0 \<le> q \<and> q \<le> 1)"
    by force
  then have "\<not> list_all (\<lambda>q. 0 \<le> q \<and> q \<le> 1) quants"
    unfolding list_all_iff by blast
  then show ?thesis
    by (simp add: calc_confint_def quantile_frame_def bind_err_def)
qed

lemma calc_confint_rows:
  assumes "0 < n" and "distinct [q0, q1, q2]"
      and "\<forall>q\<in>set [q0, q1, q2]. 0 \<le> q \<and> q \<le> 1"
  shows "calc_confint (replicate n row) [q0, q1, q2] = Inr (Vec row, Vec row, Vec row)"
proof -
  from assms(1,3) have
    "quantile_frame (replicate n row) [q0, q1, q2] = Inr [(q0, row), (q1, row), (q2, row)]"
    by (simp add: quantile_frame_def quantile_row_replicate)
  then show ?thesis
    using assms(2)
    by (auto simp: calc_confint_def bind_err_def array_get_def ix_row_def)
qed

text \<open>
  Claim C5, as the code has it. For a frame of one or more identical rows and three
  different probabilities in \<open>[0, 1]\<close>, the lower, median and upper results are vectors
  equal to that row (one value per time column), and nothing is raised. For every frame,
  a probability outside \<open>[0, 1]\<close> among the requested ones is refused with \<open>ValueError\<close>.
\<close>

theorem calc_confint_identical_rows:
  "(0 < n \<and> distinct [q0, q1, q2] \<and> (\<forall>q\<in>set [q0, q1, q2]. 0 \<le> q \<and> q \<le> 1) \<longrightarrow>
      calc_confint (replicate n row) [q0, q1, q2] = Inr (Vec row, Vec row, Vec row))
   \<and> ((\<exists>q\<in>set quants. q < 0 \<or> 1 < q) \<longrightarrow> calc_confint df quants = Inl ValueError)"
  using calc_confint_rows calc_confint_out_of_range by blast

theorem calc_confint_identical_rows_witness:
  "(0::nat) < 1 \<and> distinct [1 / 40, 1 / 2, 39 / 40 :: real]
   \<and> list_all (\<lambda>q. 0 \<le> q \<and> q \<le> 1) [1 / 40, 1 / 2, 39 / 40 :: real]
   \<and> calc_confint [[3, 5, 8]] [1 / 40, 1 / 2, 39 / 40]
       = Inr (Vec [3, 5, 8], Vec [3, 5, 8], Vec [3, 5, 8])
   \<and> calc_confint [[3, 5, 8], [3, 5, 8]] [0, 1 / 2, 1]
       = Inr (Vec [3, 5, 8], Vec [3, 5, 8], Vec [3, 5, 8])
   \<and> (1 :: real) < 3 / 2
   \<and> calc_confint [[3, 5, 8], [4, 6, 9]] [1 / 40, 1 / 2, 3 / 2] = Inl ValueError"
proof -
  have h: "(0::nat) < 1 \<and> distinct [1 / 40, 1 / 2, 39 / 40 :: real]
           \<and> (\<forall>q\<in>set [1 / 40, 1 / 2, 39 / 40 :: real]. 0 \<le> q \<and> q \<le> 1)"
    by simp
  have g: "(0::nat) < 2 \<and> distinct [0, 1 / 2, 1 :: real]
           \<and> (\<forall>q\<in>set [0, 1 / 2, 1 :: real]. 0 \<le> q \<and> q \<le> 1)"
    by simp
  have o: "\<exists>q\<in>set [1 / 40, 1 / 2, 3 / 2 :: real]. q < 0 \<or> 1 < q"
    by (rule bexI[of _ "3 / 2"]) simp_all
  have r1: "replicate 1 [3, 5, 8 :: real] = [[3, 5, 8]]"
    and r2: "replicate 2 [3, 5, 8 :: real] = [[3, 5, 8], [3, 5, 8]]"
    by (simp_all add: numeral_2_eq_2)
  from calc_confint_identical_rows[of 1 "1 / 40" "1 / 2" "39 / 40" "[3, 5, 8]"] h
  have 1: "calc_confint [[3, 5, 8]] [1 / 40, 1 / 2, 39 / 40]
             = Inr (Vec [3, 5, 8], Vec [3, 5, 8], Vec [3, 5, 8])"
    unfolding r1 by blast
  from calc_confint_identical_rows[of 2 0 "1 / 2" 1 "[3, 5, 8]"] g
  have 2: "calc_confint [[3, 5, 8], [3, 5, 8]] [0, 1 / 2, 1]
             = Inr (Vec [3, 5, 8], Vec [3, 5, 8], Vec [3, 5, 8])"
    unfolding r2 by blast
  from calc_confint_identical_rows[of _ _ _ _ _ "[1 / 40, 1 / 2, 3 / 2]" "[[3, 5, 8], [4, 6, 9]]"] o
  have 3: "calc_confint [[3, 5, 8], [4, 6, 9]] [1 / 40, 1 / 2, 3 / 2] = Inl ValueError"
    by blast
  from h 1 2 3 show ?thesis
    by simp
qed

text \<open>
  Claim C5 as stated fails for other triples. The three results are read from the table
  of quantiles by label: when a probability occurs more than once in the triple, its
  label selects several rows and the result is a frame, not a vector. A probability
  outside \<open>[0, 1]\<close> is refused with \<open>ValueError\<close>.
\<close>

theorem calc_confint_other_triples:
  "calc_confint [[1, 2], [1, 2]] [1 / 2, 1 / 2, 1 / 2]
     = Inr (Frame [[1, 2], [1, 2], [1, 2]], Frame [[1, 2], [1, 2], [1, 2]],
            Frame [[1, 2], [1, 2], [1, 2]])
   \<and> calc_confint [[1, 2], [1, 2]] [1 / 40, 1 / 2, 3 / 2] = Inl ValueError"
  by (simp add: calc_confint_def quantile_frame_def bind_err_def array_get_def ix_row_def
      columns_def col_quantile_def Let_def)

end
